(* ===== verification/Prelude.thy ===== *)
theory Prelude
  imports Main "HOL-Library.Word"
begin

text \<open>
  Vocabulary shared by the whole development: machine types, Go error values
  (\<open>errors.go\<close>, \<open>frame.go\<close> and the few standard-library sentinels the
  code compares against), time arithmetic as \<open>package time\<close> does it, decimal
  printing, iteration orders of Go maps, and the theorem collections that the component
  theories fill.
\<close>

section \<open>Theorem collections\<close>

named_theorems frame_simps
  \<open>effect of an operation on the state components it does not write\<close>

named_theorems go_simps
  \<open>rewrite rules for the Go run-time vocabulary\<close>

section \<open>Machine types\<close>

type_synonym byte = "8 word"
type_synonym bytes = "byte list"
type_synonym u32 = "32 word"
type_synonym u64 = "64 word"

text \<open>\<open>PlayerID\<close> is \<open>uint32\<close> (\<open>session.go\<close>).\<close>

type_synonym pid = u32

text \<open>A \<open>net.Addr\<close> is known to the library through \<open>String()\<close> only.\<close>

type_synonym addr = string

section \<open>Errors\<close>

text \<open>
  The package's sentinels (\<open>errors.go\<close>, \<open>frame.go\<close>), then the standard
  library's that the code compares with \<open>errors.Is\<close> or \<open>==\<close>.
\<close>

datatype sentinel =
    ErrServerAlreadyRunning | ErrUnknownMessageType | ErrSessionNotFound
  | ErrOutboundQueueFull | ErrHandlerPanic | ErrAuthRejected | ErrMalformedFrame
  | ErrServerMisconfigured | ErrPingTimeout | ErrRPCHandlerPanic | ErrFrameTooLarge
  | EOF | ErrUnexpectedEOF | NetErrClosed | ContextCanceled | ContextDeadlineExceeded

text \<open>
  An error value: a sentinel, an opaque error with a text (\<open>errors.New\<close> in game code,
  an operating-system error), or one made by \<open>fmt.Errorf\<close> with \<open>%w\<close>, which has a
  text of its own and wraps another error.
\<close>

datatype goerr =
    Sentinel sentinel
  | ErrText string
  | Wrapped string goerr

fun sentinel_text :: "sentinel \<Rightarrow> string" where
  "sentinel_text ErrServerAlreadyRunning = ''godotnet: server already running''"
| "sentinel_text ErrUnknownMessageType = ''godotnet: unknown message type''"
| "sentinel_text ErrSessionNotFound = ''godotnet: session not found''"
| "sentinel_text ErrOutboundQueueFull = ''godotnet: outbound queue full''"
| "sentinel_text ErrHandlerPanic = ''godotnet: handler panicked''"
| "sentinel_text ErrAuthRejected = ''godotnet: authentication rejected''"
| "sentinel_text ErrMalformedFrame = ''godotnet: malformed frame''"
| "sentinel_text ErrServerMisconfigured = ''godotnet: server misconfigured''"
| "sentinel_text ErrPingTimeout = ''godotnet: ping timeout''"
| "sentinel_text ErrRPCHandlerPanic = ''godotnet: rpc handler panicked''"
| "sentinel_text ErrFrameTooLarge = ''godotnet: frame exceeds max length''"
| "sentinel_text EOF = ''EOF''"
| "sentinel_text ErrUnexpectedEOF = ''unexpected EOF''"
| "sentinel_text NetErrClosed = ''use of closed network connection''"
| "sentinel_text ContextCanceled = ''context canceled''"
| "sentinel_text ContextDeadlineExceeded = ''context deadline exceeded''"

text \<open>\<open>err.Error()\<close>, and \<open>errors.Is(err, target)\<close> along the wrap chain.\<close>

fun error_text :: "goerr \<Rightarrow> string" where
  "error_text (Sentinel x) = sentinel_text x"
| "error_text (ErrText t) = t"
| "error_text (Wrapped t e) = t"

fun errors_is :: "goerr \<Rightarrow> sentinel \<Rightarrow> bool" where
  "errors_is (Sentinel x) t = (x = t)"
| "errors_is (ErrText m) t = False"
| "errors_is (Wrapped m e) t = errors_is e t"

text \<open>\<open>fmt.Errorf("prefix%w", err)\<close> and \<open>fmt.Errorf("%wsuffix", err)\<close>.\<close>

definition errorf_prefix :: "string \<Rightarrow> goerr \<Rightarrow> goerr" where
  "errorf_prefix p e = Wrapped (p @ error_text e) e"

definition errorf_suffix :: "goerr \<Rightarrow> string \<Rightarrow> goerr" where
  "errorf_suffix e t = Wrapped (error_text e @ t) e"

lemma errors_is_errorf [simp, go_simps]:
  "errors_is (errorf_prefix p e) t = errors_is e t"
  "errors_is (errorf_suffix e q) t = errors_is e t"
  by (simp_all add: errorf_prefix_def errorf_suffix_def)

section \<open>Decimal printing\<close>

text \<open>\<open>%d\<close> of \<open>fmt\<close>, used in error texts and the fallback session token.\<close>

fun show_nat :: "nat \<Rightarrow> string" where
  "show_nat n =
     (if n < 10 then [char_of (48 + n)] else show_nat (n div 10) @ [char_of (48 + n mod 10)])"

declare show_nat.simps [simp del]

definition show_int :: "int \<Rightarrow> string" where
  "show_int i = (if i < 0 then ''-'' @ show_nat (nat (- i)) else show_nat (nat i))"

lemma show_nat_nonempty [simp]: "show_nat n \<noteq> []"
  by (subst show_nat.simps) simp

section \<open>Time\<close>

text \<open>
  A \<open>time.Time\<close> is the number of nanoseconds since the Unix epoch, a
  \<open>time.Duration\<close> a number of nanoseconds. \<open>UnixNano\<close> is an \<open>int64\<close> and
  wraps; \<open>Sub\<close> saturates; the zero \<open>Time\<close> is 1 January of year 1.
\<close>

definition int64 :: "int \<Rightarrow> int" where
  "int64 x = (x + 2 ^ 63) mod 2 ^ 64 - 2 ^ 63"

definition time_UnixNano :: "int \<Rightarrow> int" where
  "time_UnixNano t = int64 t"

definition time_Sub :: "int \<Rightarrow> int \<Rightarrow> int" where
  "time_Sub t u = max (- (2 ^ 63)) (min (2 ^ 63 - 1) (t - u))"

definition time_Add :: "int \<Rightarrow> int \<Rightarrow> int" where
  "time_Add t d = t + d"

definition time_zero :: int where
  "time_zero = - 62135596800000000000"

definition time_Second :: int where
  "time_Second = 1000000000"

definition time_Millisecond :: int where
  "time_Millisecond = 1000000"

lemma int64_id: "- (2 ^ 63) \<le> x \<Longrightarrow> x < 2 ^ 63 \<Longrightarrow> int64 x = x"
  by (simp add: int64_def)

section \<open>Go maps\<close>

text \<open>
  \<open>range\<close> over a Go map visits every key once, in an unspecified order: an order is
  admissible when it lists the domain without repetition.
\<close>

definition range_order :: "('k \<rightharpoonup> 'v) \<Rightarrow> 'k list \<Rightarrow> bool" where
  "range_order m ks \<longleftrightarrow> distinct ks \<and> set ks = dom m"

lemma range_order_mem: "range_order m ks \<Longrightarrow> k \<in> set ks \<longleftrightarrow> m k \<noteq> None"
  by (auto simp: range_order_def)

lemma range_order_finite: "range_order m ks \<Longrightarrow> finite (dom m)"
  by (metis List.finite_set range_order_def)

section \<open>Folding a state through a list\<close>

text \<open>A loop \<open>for _, x := range xs { s = f(x, s) }\<close> is \<open>fold f xs s\<close>.\<close>

lemma fold_invariant_rule:
  assumes "P s" and "\<And>x s. x \<in> set xs \<Longrightarrow> P s \<Longrightarrow> P (f x s)"
  shows "P (fold f xs s)"
  using assms by (induction xs arbitrary: s) auto

lemma fold_preserves:
  assumes "\<And>x s. x \<in> set xs \<Longrightarrow> g (f x s) = g s"
  shows "g (fold f xs s) = g s"
  using assms by (induction xs arbitrary: s) auto

text \<open>
  What every step keeps, every execution keeps: the interface between a step relation and the
  predicates proved to be invariants of it.
\<close>

locale preserved =
  fixes P :: "'s \<Rightarrow> bool" and step :: "'s \<Rightarrow> 's \<Rightarrow> bool"
  assumes step_keeps: "P s \<Longrightarrow> step s s' \<Longrightarrow> P s'"
begin

lemma run_keeps: "rtranclp step s s' \<Longrightarrow> P s \<Longrightarrow> P s'"
  by (induction rule: rtranclp_induct) (auto intro: step_keeps)

end

end

