(* ===== verification/Frame.thy ===== *)
theory Frame
  imports Prelude
begin

text \<open>
  \<open>frame.go\<close>: length-prefixed framing of the TCP byte stream. A reader is the bytes it
  will still deliver and the error it reports after them; a writer is a state with a
  \<open>Write\<close> operation whose contract is the locale \<open>byte_sink\<close>.
\<close>

section \<open>Big-endian headers\<close>

definition frameHeaderSize :: nat where
  "frameHeaderSize = 4"

definition be_PutUint32 :: "u32 \<Rightarrow> bytes" where
  "be_PutUint32 v =
     [ucast (drop_bit 24 v), ucast (drop_bit 16 v), ucast (drop_bit 8 v), ucast v]"

definition be_Uint32 :: "bytes \<Rightarrow> u32" where
  "be_Uint32 b = (case b of
      [b0, b1, b2, b3] \<Rightarrow>
        or (or (push_bit 24 (ucast b0)) (push_bit 16 (ucast b1)))
           (or (push_bit 8 (ucast b2)) (ucast b3))
    | _ \<Rightarrow> 0)"

text \<open>The 64-bit variants, used for the ping nonce (\<open>ping.go\<close>).\<close>

definition be_PutUint64 :: "u64 \<Rightarrow> bytes" where
  "be_PutUint64 v = map (\<lambda>i. ucast (drop_bit (8 * i) v)) [7, 6, 5, 4, 3, 2, 1, 0]"

definition be_Uint64 :: "bytes \<Rightarrow> u64" where
  "be_Uint64 b = foldl (\<lambda>acc x. or (push_bit 8 acc) (ucast x)) 0 b"

lemma length_be_PutUint32 [simp]: "length (be_PutUint32 v) = 4"
  by (simp add: be_PutUint32_def)

lemma be_Uint32_PutUint32 [simp]: "be_Uint32 (be_PutUint32 v) = v"
proof (rule bit_word_eqI)
  fix n :: nat
  assume "n < LENGTH(32)"
  then consider "n < 8" | "8 \<le> n" "n < 16" | "16 \<le> n" "n < 24" | "24 \<le> n" "n < 32"
    by fastforce
  then show "bit (be_Uint32 (be_PutUint32 v)) n \<longleftrightarrow> bit v n"
    by cases (auto simp: be_Uint32_def be_PutUint32_def bit_simps)
qed

section \<open>Writing\<close>

text \<open>\<open>io.Writer\<close>: the writer's next state and \<open>nil\<close> or the error.\<close>

type_synonym 'w write_op = "bytes \<Rightarrow> 'w \<Rightarrow> 'w \<times> goerr option"

definition WriteFrame :: "'w write_op \<Rightarrow> bytes \<Rightarrow> 'w \<Rightarrow> 'w \<times> goerr option" where
  "WriteFrame wr payload w =
     (case wr (be_PutUint32 (word_of_nat (length payload))) w of
        (w1, Some err) \<Rightarrow> (w1, Some (errorf_prefix ''godotnet: write frame header: '' err))
      | (w1, None) \<Rightarrow>
          if length payload = 0 then (w1, None)
          else (case wr payload w1 of
              (w2, Some err) \<Rightarrow> (w2, Some (errorf_prefix ''godotnet: write frame payload: '' err))
            | (w2, None) \<Rightarrow> (w2, None)))"

text \<open>What a successful write puts on the wire.\<close>

definition encode_frame :: "bytes \<Rightarrow> bytes" where
  "encode_frame payload = be_PutUint32 (word_of_nat (length payload)) @ payload"

lemma length_encode_frame [simp]: "length (encode_frame p) = 4 + length p"
  by (simp add: encode_frame_def)

text \<open>
  The contract of \<open>io.Writer\<close>: a nil error means that all of the buffer went out, an
  error that at most a prefix did.
\<close>

locale byte_sink =
  fixes wr :: "'w write_op" and written :: "'w \<Rightarrow> bytes"
  assumes write_all: "wr p w = (w', None) \<Longrightarrow> written w' = written w @ p"
    and write_part: "wr p w = (w', Some e) \<Longrightarrow> \<exists>n. written w' = written w @ take n p"
begin

lemma WriteFrame_ok:
  "WriteFrame wr p w = (w', None) \<Longrightarrow> written w' = written w @ encode_frame p"
  by (auto simp: WriteFrame_def encode_frame_def dest!: write_all
      split: prod.splits option.splits if_splits)

text \<open>A failed write leaves a proper or improper prefix of the frame on the wire.\<close>

lemma WriteFrame_error:
  assumes "WriteFrame wr p w = (w', Some e)"
  shows "\<exists>n. written w' = written w @ take n (encode_frame p)"
proof -
  let ?h = "be_PutUint32 (word_of_nat (length p))"
  obtain w1 r1 where h: "wr ?h w = (w1, r1)"
    by fastforce
  show ?thesis
  proof (cases r1)
    case (Some e1)
    with h assms have "w' = w1"
      by (simp add: WriteFrame_def)
    moreover obtain n where "written w1 = written w @ take n ?h"
      using write_part h Some by blast
    ultimately have "written w' = written w @ take (min n 4) (encode_frame p)"
      by (simp add: encode_frame_def min_def)
    then show ?thesis by blast
  next
    case None
    with h have w1: "written w1 = written w @ ?h"
      by (simp add: write_all)
    from None h assms obtain e2 where "wr p w1 = (w', Some e2)"
      by (auto simp: WriteFrame_def split: prod.splits option.splits if_splits)
    then obtain n where "written w' = written w1 @ take n p"
      using write_part by blast
    with w1 have "written w' = written w @ take (4 + n) (encode_frame p)"
      by (simp add: encode_frame_def)
    then show ?thesis by blast
  qed
qed

end

section \<open>Reading\<close>

text \<open>
  An \<open>io.Reader\<close>: the bytes it delivers before it reports \<open>stop\<close> (\<open>io.EOF\<close>
  when the peer closed). \<open>io.ReadFull\<close> turns an EOF after at least one byte into
  \<open>io.ErrUnexpectedEOF\<close> and passes every other error on.
\<close>

record instream =
  avail :: bytes
  stop :: goerr

definition io_ReadFull :: "nat \<Rightarrow> instream \<Rightarrow> (goerr + bytes) \<times> instream" where
  "io_ReadFull n r =
     (if n \<le> length (avail r)
      then (Inr (take n (avail r)), r\<lparr>avail := drop n (avail r)\<rparr>)
      else (Inl (if avail r \<noteq> [] \<and> stop r = Sentinel EOF then Sentinel ErrUnexpectedEOF
                 else stop r), r\<lparr>avail := []\<rparr>))"

definition ReadFrame :: "instream \<Rightarrow> u32 \<Rightarrow> (goerr + bytes) \<times> instream" where
  "ReadFrame r maxLen =
     (case io_ReadFull frameHeaderSize r of
        (Inl err, r1) \<Rightarrow> (Inl (errorf_prefix ''godotnet: read frame header: '' err), r1)
      | (Inr hdr, r1) \<Rightarrow>
          (let n = be_Uint32 hdr in
           if maxLen \<noteq> 0 \<and> n > maxLen then
             (Inl (errorf_suffix (Sentinel ErrFrameTooLarge)
                     ('': '' @ show_nat (unat n) @ '' > '' @ show_nat (unat maxLen))), r1)
           else if n = 0 then (Inr [], r1)
           else (case io_ReadFull (unat n) r1 of
               (Inl err, r2) \<Rightarrow> (Inl (errorf_prefix ''godotnet: read frame payload: '' err), r2)
             | (Inr payload, r2) \<Rightarrow> (Inr payload, r2))))"

lemma ReadFrame_short_header:
  assumes "length (avail r) < 4"
  shows "ReadFrame r maxLen =
    (Inl (errorf_prefix ''godotnet: read frame header: ''
       (if avail r \<noteq> [] \<and> stop r = Sentinel EOF then Sentinel ErrUnexpectedEOF else stop r)),
     r\<lparr>avail := []\<rparr>)"
  using assms by (simp add: ReadFrame_def io_ReadFull_def frameHeaderSize_def)

text \<open>The stream after a header that announces \<open>n\<close> bytes.\<close>

lemma ReadFrame_header:
  assumes "avail r = be_PutUint32 n @ rest"
  shows "ReadFrame r maxLen =
    (if maxLen \<noteq> 0 \<and> n > maxLen then
       (Inl (errorf_suffix (Sentinel ErrFrameTooLarge)
               ('': '' @ show_nat (unat n) @ '' > '' @ show_nat (unat maxLen))), r\<lparr>avail := rest\<rparr>)
     else if unat n \<le> length rest then
       (Inr (take (unat n) rest), r\<lparr>avail := drop (unat n) rest\<rparr>)
     else
       (Inl (errorf_prefix ''godotnet: read frame payload: ''
          (if rest \<noteq> [] \<and> stop r = Sentinel EOF then Sentinel ErrUnexpectedEOF else stop r)),
        r\<lparr>avail := []\<rparr>))"
  using assms
  by (auto simp: ReadFrame_def io_ReadFull_def frameHeaderSize_def Let_def unat_eq_0)

text \<open>Every stream of at least four bytes starts with the header of some length.\<close>

lemma be_PutUint32_Uint32:
  assumes "length b = 4"
  shows "be_PutUint32 (be_Uint32 b) = b"
proof -
  from assms obtain b0 b1 b2 b3 where b: "b = [b0, b1, b2, b3]"
    by (auto simp: numeral_eq_Suc length_Suc_conv)
  have "\<And>n. n < 8 \<Longrightarrow> bit (ucast (drop_bit 24 (be_Uint32 b)) :: byte) n = bit b0 n"
    "\<And>n. n < 8 \<Longrightarrow> bit (ucast (drop_bit 16 (be_Uint32 b)) :: byte) n = bit b1 n"
    "\<And>n. n < 8 \<Longrightarrow> bit (ucast (drop_bit 8 (be_Uint32 b)) :: byte) n = bit b2 n"
    "\<And>n. n < 8 \<Longrightarrow> bit (ucast (be_Uint32 b) :: byte) n = bit b3 n"
    by (auto simp: b be_Uint32_def bit_simps dest: bit_imp_le_length)
  then have "(ucast (drop_bit 24 (be_Uint32 b)) :: byte) = b0"
    "(ucast (drop_bit 16 (be_Uint32 b)) :: byte) = b1"
    "(ucast (drop_bit 8 (be_Uint32 b)) :: byte) = b2"
    "(ucast (be_Uint32 b) :: byte) = b3"
    by (auto intro!: bit_word_eqI)
  then show ?thesis by (simp add: be_PutUint32_def b)
qed

lemma stream_has_header:
  assumes "4 \<le> length (avail r)"
  shows "avail r = be_PutUint32 (be_Uint32 (take 4 (avail r))) @ drop 4 (avail r)"
  using assms by (simp add: be_PutUint32_Uint32)

lemma ReadFrame_ok_stream:
  assumes "ReadFrame r maxLen = (Inr p, r')"
  shows "avail r = be_PutUint32 (word_of_nat (length p)) @ p @ avail r'" "stop r' = stop r"
    "maxLen \<noteq> 0 \<longrightarrow> length p \<le> unat maxLen" "length p < 2 ^ 32"
proof -
  have long: "4 \<le> length (avail r)"
    using assms ReadFrame_short_header [of r maxLen] by (cases "length (avail r) < 4") auto
  define n rest where "n = be_Uint32 (take 4 (avail r))" and "rest = drop 4 (avail r)"
  have split: "avail r = be_PutUint32 n @ rest"
    unfolding n_def rest_def by (rule stream_has_header [OF long])
  have ok: "\<not> (maxLen \<noteq> 0 \<and> n > maxLen)" "unat n \<le> length rest"
    "p = take (unat n) rest" "r' = r\<lparr>avail := drop (unat n) rest\<rparr>"
    using assms ReadFrame_header [OF split, of maxLen] by (auto split: if_splits)
  then have len: "length p = unat n" by simp
  then have "word_of_nat (length p) = n" by simp
  then show "avail r = be_PutUint32 (word_of_nat (length p)) @ p @ avail r'"
    using ok split by simp
  show "stop r' = stop r" using ok by simp
  show "maxLen \<noteq> 0 \<longrightarrow> length p \<le> unat maxLen"
    using ok(1) len by (auto simp: word_le_nat_alt not_less)
  show "length p < 2 ^ 32" using unsigned_less [of n] len by simp
qed

lemma ReadFrame_shrinks:
  "ReadFrame r maxLen = (Inr p, r') \<Longrightarrow> length (avail r') < length (avail r)"
  using arg_cong [OF ReadFrame_ok_stream(1), of r maxLen p r' length] by simp

lemma ReadFrame_encoded:
  assumes "avail r = encode_frame p @ rest" "length p < 2 ^ 32"
    and "maxLen \<noteq> 0 \<Longrightarrow> length p \<le> unat maxLen"
  shows "ReadFrame r maxLen = (Inr p, r\<lparr>avail := rest\<rparr>)"
proof -
  have n: "unat (word_of_nat (length p) :: u32) = length p"
    using assms(2) by (simp add: unat_of_nat)
  have "avail r = be_PutUint32 (word_of_nat (length p)) @ (p @ rest)"
    using assms(1) by (simp add: encode_frame_def)
  from ReadFrame_header [OF this, of maxLen] show ?thesis
    using assms(3) n by (auto simp: word_less_nat_alt)
qed

text \<open>The frames a reader gets out of a stream before it meets an error, and that error.\<close>

function read_frames :: "u32 \<Rightarrow> instream \<Rightarrow> bytes list \<times> goerr" where
  "read_frames maxLen r =
     (case ReadFrame r maxLen of
        (Inl err, r') \<Rightarrow> ([], err)
      | (Inr p, r') \<Rightarrow> (case read_frames maxLen r' of (ps, err) \<Rightarrow> (p # ps, err)))"
  by pat_completeness auto

termination
  by (relation "measure (\<lambda>(m, r). length (avail r))") (auto intro: ReadFrame_shrinks [OF sym])

declare read_frames.simps [simp del]

text \<open>Reading back a stream of frames.\<close>

lemma read_frames_stream:
  assumes "\<And>p. p \<in> set ps \<Longrightarrow> length p < 2 ^ 32"
    and "\<And>p. p \<in> set ps \<Longrightarrow> maxLen \<noteq> 0 \<Longrightarrow> length p \<le> unat maxLen"
  shows "read_frames maxLen \<lparr>avail = concat (map encode_frame ps), stop = e\<rparr> =
    (ps, errorf_prefix ''godotnet: read frame header: '' e)"
  using assms
proof (induction ps)
  case Nil
  show ?case by (simp add: read_frames.simps [of maxLen] ReadFrame_short_header)
next
  case (Cons p ps)
  let ?r = "\<lparr>avail = concat (map encode_frame (p # ps)), stop = e\<rparr>"
  have "ReadFrame ?r maxLen = (Inr p, ?r\<lparr>avail := concat (map encode_frame ps)\<rparr>)"
    using Cons.prems [of p] by (intro ReadFrame_encoded) simp_all
  with Cons show ?case by (subst read_frames.simps) simp
qed

text \<open>The outcomes of a failed read, for a stream that the peer closed.\<close>

lemma ReadFrame_failed:
  assumes "ReadFrame r maxLen = (Inl err, r')" "stop r = Sentinel EOF"
  shows "(errors_is err ErrFrameTooLarge \<and> maxLen \<noteq> 0 \<and> avail r' = drop 4 (avail r) \<and>
       4 \<le> length (avail r) \<and> be_Uint32 (take 4 (avail r)) > maxLen) \<or>
    (errors_is err EOF \<and> (avail r = [] \<or> length (avail r) = 4) \<and> avail r' = []) \<or>
    (errors_is err ErrUnexpectedEOF \<and> avail r \<noteq> [] \<and> length (avail r) \<noteq> 4 \<and> avail r' = [])"
proof (cases "length (avail r) < 4")
  case True
  with assms show ?thesis by (cases "avail r = []") (auto simp: ReadFrame_short_header)
next
  case False
  then have long: "4 \<le> length (avail r)" by simp
  let ?n = "be_Uint32 (take 4 (avail r))"
  have "drop 4 (avail r) = [] \<longleftrightarrow> length (avail r) = 4" using long by auto
  then show ?thesis
    using assms long ReadFrame_header [OF stream_has_header [OF long], of maxLen]
    by (auto split: if_splits)
qed

section \<open>Properties\<close>

text \<open>
  C34 The outcomes of \<open>ReadFrame\<close> on a stream that the peer closed (\<open>io.EOF\<close>). A payload that
  is returned is never longer than a non-zero \<open>maxLen\<close>, and the bytes consumed are exactly the
  frame that \<open>WriteFrame\<close> writes for it. A header above the cap is rejected with nothing of
  the payload consumed; a stream that stops at a frame boundary, or right after a header, is an
  EOF; one that stops inside a header or a payload is an unexpected EOF. (The comment on
  \<open>ReadFrame\<close> has every truncated payload as \<open>io.ErrUnexpectedEOF\<close>.)
\<close>

theorem ReadFrame_outcomes:
  assumes "stop r = Sentinel EOF"
  shows "case ReadFrame r maxLen of
      (Inr p, r') \<Rightarrow> avail r = encode_frame p @ avail r' \<and> stop r' = stop r \<and> length p < 2 ^ 32 \<and>
        (maxLen = 0 \<or> length p \<le> unat maxLen)
    | (Inl err, r') \<Rightarrow>
        (errors_is err ErrFrameTooLarge \<and> maxLen \<noteq> 0 \<and> avail r' = drop 4 (avail r) \<and>
           4 \<le> length (avail r) \<and> be_Uint32 (take 4 (avail r)) > maxLen) \<or>
        (errors_is err EOF \<and> (avail r = [] \<or> length (avail r) = 4) \<and> avail r' = []) \<or>
        (errors_is err ErrUnexpectedEOF \<and> avail r \<noteq> [] \<and> length (avail r) \<noteq> 4 \<and> avail r' = [])"
proof -
  obtain res r' where rf: "ReadFrame r maxLen = (res, r')" by fastforce
  show ?thesis
  proof (cases res)
    case (Inl err)
    with ReadFrame_failed [OF _ assms] rf show ?thesis by simp
  next
    case (Inr p)
    with ReadFrame_ok_stream [of r maxLen p r'] rf show ?thesis by (auto simp: encode_frame_def)
  qed
qed

lemma ReadFrame_outcomes_witness:
  "errors_is (errorf_prefix ''godotnet: read frame payload: '' (Sentinel EOF)) EOF \<and>
   (\<exists>err r'. ReadFrame \<lparr>avail = [0, 0, 0, 3], stop = Sentinel EOF\<rparr> 8 = (Inl err, r') \<and>
     (errors_is err ErrFrameTooLarge \<or> avail r' = []))"
proof -
  let ?r = "\<lparr>avail = [0, 0, 0, 3], stop = Sentinel EOF\<rparr>"
  let ?e = "errorf_prefix ''godotnet: read frame payload: '' (Sentinel EOF)"
  have "ReadFrame ?r 8 = (Inl ?e, \<lparr>avail = [], stop = Sentinel EOF\<rparr>)"
    by (simp add: ReadFrame_def io_ReadFull_def frameHeaderSize_def be_Uint32_def)
  from this ReadFrame_outcomes [of ?r 8] show ?thesis by auto
qed



end

