(* ===== verification/Events.thy ===== *)
theory Events
  imports Prelude
begin

text \<open>
  \<open>events.go\<close>: the bounded event queue between the I/O goroutines and the tick
  goroutine. \<open>queue\<close> wraps a buffered channel; \<open>push\<close> and \<open>drain\<close> are the two
  operations. \<open>drain_concurrent\<close> is \<open>drain\<close> with the pushes of other goroutines
  interleaved between its receives.
\<close>

section \<open>Events\<close>

text \<open>Sessions are referred to by their address in the heap of theory \<open>Server\<close>.\<close>

type_synonym sref = nat

datatype eventKind = eventMessage | eventConnect | eventDisconnect

record event =
  kind :: eventKind
  sess :: "sref option"
  payload :: bytes
  isUDP :: bool
  event_udpAddr :: "addr option"
  reason :: "goerr option"

text \<open>A struct literal sets the fields it does not name to their zero values.\<close>

definition event_zero :: event where
  "event_zero = \<lparr>kind = eventMessage, sess = None, payload = [], isUDP = False,
     event_udpAddr = None, reason = None\<rparr>"

definition disconnect_event :: "sref \<Rightarrow> goerr \<Rightarrow> event" where
  "disconnect_event r err = event_zero\<lparr>kind := eventDisconnect, sess := Some r, reason := Some err\<rparr>"

definition tcp_message :: "sref \<Rightarrow> bytes \<Rightarrow> event" where
  "tcp_message r p = event_zero\<lparr>kind := eventMessage, sess := Some r, payload := p\<rparr>"

definition udp_message :: "bytes \<Rightarrow> addr \<Rightarrow> event" where
  "udp_message p a =
     event_zero\<lparr>kind := eventMessage, payload := p, isUDP := True, event_udpAddr := Some a\<rparr>"

lemmas event_defs = event_zero_def disconnect_event_def tcp_message_def udp_message_def

section \<open>The queue\<close>

definition DefaultEventQueueDepth :: int where
  "DefaultEventQueueDepth = 4096"

record 'e queue =
  ch :: "'e list"
  depth :: nat

definition newQueue :: "int \<Rightarrow> 'e queue" where
  "newQueue d = \<lparr>ch = [], depth = nat (if d \<le> 0 then DefaultEventQueueDepth else d)\<rparr>"

definition push :: "'e \<Rightarrow> 'e queue \<Rightarrow> 'e queue \<times> bool" where
  "push e q = (if length (ch q) < depth q then (q\<lparr>ch := ch q @ [e]\<rparr>, True) else (q, False))"

text \<open>
  The loop of \<open>drain\<close>: at most \<open>n\<close> receives, none of which blocks.
\<close>

fun drain_loop :: "nat \<Rightarrow> 'e list \<Rightarrow> 'e queue \<Rightarrow> 'e list \<times> 'e queue" where
  "drain_loop 0 out q = (out, q)"
| "drain_loop (Suc k) out q =
     (case ch q of
        [] \<Rightarrow> (out, q)
      | e # es \<Rightarrow> drain_loop k (out @ [e]) (q\<lparr>ch := es\<rparr>))"

definition drain :: "'e queue \<Rightarrow> 'e list \<times> 'e queue" where
  "drain q = (let n = length (ch q) in if n = 0 then ([], q) else drain_loop n [] q)"

text \<open>
  The same loop while other goroutines push: before the receive number \<open>k\<close> the events
  of the \<open>k\<close>-th list arrive, in order, and each is dropped when the channel is full.
\<close>

definition push_all :: "'e list \<Rightarrow> 'e queue \<Rightarrow> 'e queue" where
  "push_all es q = fold (\<lambda>e q. fst (push e q)) es q"

fun drain_concurrent :: "'e list list \<Rightarrow> nat \<Rightarrow> 'e list \<Rightarrow> 'e queue \<Rightarrow> 'e list \<times> 'e queue" where
  "drain_concurrent arr 0 out q = (out, q)"
| "drain_concurrent arr (Suc k) out q =
     (let q1 = (case arr of [] \<Rightarrow> q | es # _ \<Rightarrow> push_all es q) in
      case ch q1 of
        [] \<Rightarrow> (out, q1)
      | e # es \<Rightarrow> drain_concurrent (tl arr) k (out @ [e]) (q1\<lparr>ch := es\<rparr>))"

section \<open>The contract of the queue\<close>

text \<open>
  What the server relies on: pushes append, refuse exactly when full and never change what
  is buffered; a drain takes everything, in order.
\<close>

locale bounded_fifo =
  fixes enq :: "'e \<Rightarrow> 'q \<Rightarrow> 'q \<times> bool"
    and deq_all :: "'q \<Rightarrow> 'e list \<times> 'q"
    and contents :: "'q \<Rightarrow> 'e list"
    and room :: "'q \<Rightarrow> nat"
  assumes enq_ok: "length (contents q) < room q \<Longrightarrow>
      enq e q = (q', b) \<Longrightarrow> b \<and> contents q' = contents q @ [e]"
    and enq_full: "\<not> length (contents q) < room q \<Longrightarrow> enq e q = (q, False)"
    and enq_room: "room (fst (enq e q)) = room q"
    and deq_contents: "deq_all q = (es, q') \<Longrightarrow> es = contents q \<and> contents q' = []"
    and deq_room: "room (snd (deq_all q)) = room q"
begin

lemma enq_accepted: "snd (enq e q) \<longleftrightarrow> length (contents q) < room q"
  using enq_ok [of q e "fst (enq e q)" "snd (enq e q)"] enq_full [of q e] by force

lemma enq_contents:
  "contents (fst (enq e q)) = contents q @ (if length (contents q) < room q then [e] else [])"
  using enq_ok [of q e "fst (enq e q)" "snd (enq e q)"] enq_full [of q e] by force

lemma enq_bounded:
  "length (contents q) \<le> room q \<Longrightarrow> length (contents (fst (enq e q))) \<le> room (fst (enq e q))"
  by (simp add: enq_contents enq_room)

lemma enq_all_room: "room (fold (\<lambda>e q. fst (enq e q)) es q) = room q"
  by (rule fold_preserves) (simp add: enq_room)

text \<open>A burst is accepted up to the free room, the rest is refused.\<close>

lemma enq_all_contents:
  assumes "length (contents q) \<le> room q"
  shows "contents (fold (\<lambda>e q. fst (enq e q)) es q) =
    contents q @ take (room q - length (contents q)) es"
  using assms
proof (induction es arbitrary: q)
  case Nil
  then show ?case by simp
next
  case (Cons e es)
  have "length (contents (fst (enq e q))) \<le> room (fst (enq e q))"
    by (rule enq_bounded [OF Cons.prems])
  from Cons.IH [OF this] show ?case
  proof (cases "length (contents q) < room q")
    case True
    then have "room q - length (contents q) = Suc (room q - Suc (length (contents q)))"
      by simp
    with True Cons.IH [OF \<open>_ \<le> room (fst (enq e q))\<close>] show ?thesis
      by (simp add: enq_contents enq_room)
  next
    case False
    with Cons.IH [OF \<open>_ \<le> room (fst (enq e q))\<close>] show ?thesis
      by (simp add: enq_contents enq_room)
  qed
qed

text \<open>Events come out in the order in which they were accepted.\<close>

lemma fifo:
  assumes "contents q = []"
  shows "fst (deq_all (fold (\<lambda>e q. fst (enq e q)) es q)) = take (room q) es"
  using enq_all_contents [of q es] assms
    deq_contents [of "fold (\<lambda>e q. fst (enq e q)) es q"
      "fst (deq_all (fold (\<lambda>e q. fst (enq e q)) es q))"
      "snd (deq_all (fold (\<lambda>e q. fst (enq e q)) es q))"]
  by simp

end

lemma drain_loop_all:
  "drain_loop n out q = (out @ take n (ch q), q\<lparr>ch := drop n (ch q)\<rparr>)"
  by (induction n out q rule: drain_loop.induct) (auto split: list.splits)

lemma drain_eq: "drain q = (ch q, q\<lparr>ch := []\<rparr>)"
  by (simp add: drain_def Let_def drain_loop_all)

interpretation q: bounded_fifo push drain ch depth
  by unfold_locales (auto simp: push_def drain_eq split: if_splits)

lemma push_depth [simp]: "depth (fst (push e q)) = depth q"
  by (rule q.enq_room)

lemma ch_push: "ch (fst (push e q)) = ch q @ (if length (ch q) < depth q then [e] else [])"
  by (rule q.enq_contents)

lemma push_accepted: "snd (push e q) \<longleftrightarrow> length (ch q) < depth q"
  by (rule q.enq_accepted)

lemma newQueue_empty [simp]: "ch (newQueue d) = []"
  by (simp add: newQueue_def)

lemma newQueue_depth: "depth (newQueue d) = (if d \<le> 0 then 4096 else nat d)"
  by (simp add: newQueue_def DefaultEventQueueDepth_def)

lemma depth_push_all [simp]: "depth (push_all es q) = depth q"
  unfolding push_all_def by (rule q.enq_all_room)

lemma ch_push_all:
  "length (ch q) \<le> depth q \<Longrightarrow> ch (push_all es q) = ch q @ take (depth q - length (ch q)) es"
  unfolding push_all_def by (rule q.enq_all_contents)

lemma ch_push_all_prefix: "\<exists>xs. ch (push_all es q) = ch q @ xs \<and> set xs \<subseteq> set es"
  unfolding push_all_def
proof (induction es arbitrary: q)
  case Nil
  then show ?case by simp
next
  case (Cons e es)
  from Cons.IH [of "fst (push e q)"] obtain xs where
    "ch (fold (\<lambda>e q. fst (push e q)) es (fst (push e q))) = ch (fst (push e q)) @ xs"
    "set xs \<subseteq> set es"
    by blast
  then show ?case
    by (intro exI [of _ "(if length (ch q) < depth q then [e] else []) @ xs"]) (auto simp: ch_push)
qed

lemma drain_concurrent_snapshot:
  assumes "n \<le> length (ch q)"
  shows "\<exists>rest. drain_concurrent arr n out q = (out @ take n (ch q), q\<lparr>ch := drop n (ch q) @ rest\<rparr>)
    \<and> set rest \<subseteq> \<Union> (set (map set (take n arr)))"
  using assms
proof (induction n arbitrary: arr out q)
  case 0
  then show ?case by simp
next
  case (Suc n)
  let ?es = "case arr of [] \<Rightarrow> [] | es # _ \<Rightarrow> es"
  from ch_push_all_prefix [of ?es q]
  obtain xs where xs: "ch (push_all ?es q) = ch q @ xs" "set xs \<subseteq> set ?es"
    by (elim exE conjE)
  let ?q1 = "push_all ?es q"
  have q1: "?q1 = q\<lparr>ch := ch q @ xs\<rparr>"
    by (rule queue.equality) (simp_all add: xs(1))
  from Suc.prems obtain e c where c: "ch q = e # c"
    by (cases "ch q") auto
  with Suc.prems have "n \<le> length (ch (q\<lparr>ch := c @ xs\<rparr>))"
    by simp
  from Suc.IH [OF this, of "tl arr" "out @ [e]"] obtain rest where
    IH: "drain_concurrent (tl arr) n (out @ [e]) (q\<lparr>ch := c @ xs\<rparr>) =
        (out @ e # take n (c @ xs), q\<lparr>ch := drop n (c @ xs) @ rest\<rparr>)"
      "set rest \<subseteq> \<Union> (set (map set (take n (tl arr))))"
    by auto
  have "(case arr of [] \<Rightarrow> q | es # _ \<Rightarrow> push_all es q) = ?q1"
    by (cases arr) (simp_all add: push_all_def)
  with q1 c IH(1) Suc.prems have
    "drain_concurrent arr (Suc n) out q =
       (out @ take (Suc n) (ch q), q\<lparr>ch := drop (Suc n) (ch q) @ xs @ rest\<rparr>)"
    by (simp add: Let_def)
  moreover have "set (xs @ rest) \<subseteq> \<Union> (set (map set (take (Suc n) arr)))"
    using xs(2) IH(2) by (cases arr) auto
  ultimately show ?case by blast
qed

text \<open>The code's loop is the concurrent one without arrivals.\<close>

lemma drain_loop_concurrent: "drain_loop n out q = drain_concurrent [] n out q"
  by (induction n out q rule: drain_loop.induct) (auto split: list.split)

section \<open>Properties\<close>

text \<open>
  C33 A drain returns a snapshot: whatever other goroutines push while \<open>drain\<close> runs, it
  returns exactly the events that were queued when it read the length, in order, and leaves
  behind only events that arrived meanwhile.
\<close>

theorem drain_returns_snapshot:
  "\<exists>rest. drain_concurrent arr (length (ch q)) [] q = (ch q, q\<lparr>ch := rest\<rparr>) \<and>
    set rest \<subseteq> \<Union> (set (map set arr)) \<and>
    drain q = drain_concurrent [] (length (ch q)) [] q"
proof -
  obtain rest where "drain_concurrent arr (length (ch q)) [] q = (ch q, q\<lparr>ch := rest\<rparr>)"
    "set rest \<subseteq> \<Union> (set (map set (take (length (ch q)) arr)))"
    using drain_concurrent_snapshot [of "length (ch q)" q arr "[]"] by auto
  moreover have "drain q = drain_concurrent [] (length (ch q)) [] q"
    by (auto simp: drain_def Let_def drain_loop_concurrent)
  ultimately show ?thesis by (intro exI [of _ rest]) (auto dest: in_set_takeD)
qed

text \<open>
  The event queue is a bounded FIFO: of a burst of pushes on a new queue, the next drain
  returns the first ones, up to the configured depth (4096 when it is not positive), in the
  order in which they were pushed; every later push was refused, and the queue is then empty.
\<close>

lemma queue_burst:
  "drain (push_all es (newQueue d)) =
    (take (if d \<le> 0 then 4096 else nat d) es, newQueue d)"
proof -
  define q0 :: "'a queue" where "q0 = newQueue d"
  have "fst (drain (push_all es q0)) = take (depth q0) es"
    unfolding push_all_def by (rule q.fifo) (simp add: q0_def)
  moreover have "snd (drain (push_all es q0)) = q0"
    by (rule queue.equality) (simp_all add: drain_eq q0_def)
  ultimately show ?thesis by (metis newQueue_depth prod.collapse q0_def)
qed

end

