(* ===== verification/Session.thy ===== *)
theory Session
  imports Events
begin

text \<open>
  \<open>session.go\<close>: the authentication state machine's states, the one-shot flag that
  coalesces disconnect signals, and the session object.
\<close>

section \<open>Authentication states\<close>

datatype sessionAuthState = sessionPreLogin | sessionAwaitingUDP | sessionReady

text \<open>The constants are numbered by \<open>iota\<close>; their order is the handshake's order.\<close>

fun auth_num :: "sessionAuthState \<Rightarrow> nat" where
  "auth_num sessionPreLogin = 0"
| "auth_num sessionAwaitingUDP = 1"
| "auth_num sessionReady = 2"

lemma auth_num_inject: "auth_num a = auth_num b \<Longrightarrow> a = b"
  by (cases a; cases b) simp_all

instantiation sessionAuthState :: linorder
begin

definition less_eq_sessionAuthState :: "sessionAuthState \<Rightarrow> sessionAuthState \<Rightarrow> bool" where
  "a \<le> b \<longleftrightarrow> auth_num a \<le> auth_num b"

definition less_sessionAuthState :: "sessionAuthState \<Rightarrow> sessionAuthState \<Rightarrow> bool" where
  "a < b \<longleftrightarrow> auth_num a < auth_num b"

instance
  by standard (auto simp: less_eq_sessionAuthState_def less_sessionAuthState_def
      intro: auth_num_inject)

end

lemma auth_le [simp]:
  "sessionPreLogin \<le> a"
  "a \<le> sessionReady"
  "sessionAwaitingUDP \<le> a \<longleftrightarrow> a \<noteq> sessionPreLogin"
  "sessionReady \<le> a \<longleftrightarrow> a = sessionReady"
  by (cases a; simp add: less_eq_sessionAuthState_def)+

section \<open>The one-shot flag\<close>

record atomicOnce =
  fired :: bool

text \<open>
  \<open>Do(fn)\<close>: the compare-and-swap, and whether \<open>fn\<close> runs.
\<close>

definition once_Do :: "atomicOnce \<Rightarrow> atomicOnce \<times> bool" where
  "once_Do w = (if fired w then (w, False) else (w\<lparr>fired := True\<rparr>, True))"

text \<open>
  The contract the disconnect paths rely on: whatever the number of callers, the action
  of exactly one runs, and of none when it had run before.
\<close>

locale one_shot =
  fixes attempt :: "'w \<Rightarrow> 'w \<times> bool" and spent :: "'w \<Rightarrow> bool"
  assumes attempt_runs: "snd (attempt w) = (\<not> spent w)"
    and attempt_spends: "spent (fst (attempt w))"
begin

fun attempts :: "nat \<Rightarrow> 'w \<Rightarrow> bool list" where
  "attempts 0 w = []"
| "attempts (Suc n) w = (let (v, b) = attempt w in b # attempts n v)"

lemma attempts_spent: "spent w \<Longrightarrow> attempts n w = replicate n False"
proof (induction n arbitrary: w)
  case 0
  then show ?case by simp
next
  case (Suc n)
  obtain v b where vb: "attempt w = (v, b)" by fastforce
  with attempt_runs [of w] attempt_spends [of w] Suc.prems have "\<not> b" "spent v"
    by simp_all
  with vb Suc.IH [of v] show ?case by simp
qed

lemma exactly_one_runs:
  "count_list (attempts (Suc n) w) True = (if spent w then 0 else 1)"
proof -
  obtain v b where ob: "attempt w = (v, b)" by fastforce
  with attempt_spends [of w] attempt_runs [of w] have "spent v" "b = (\<not> spent w)"
    by simp_all
  with ob show ?thesis by (simp add: attempts_spent)
qed

end

interpretation disconnect_once: one_shot once_Do fired
  by unfold_locales (auto simp: once_Do_def)

section \<open>Sessions\<close>

text \<open>
  The exported scratchpad \<open>UserData\<close> and the game-written \<open>Username\<close> are part of
  the game state of theory \<open>Server\<close>: the library never reads or writes them. A
  connection and an outbound channel are addresses in the heaps of that theory.
\<close>

type_synonym conn_ref = nat
type_synonym chan_ref = nat

record session =
  ID :: pid
  ConnectedAt :: int
  authState :: sessionAuthState
  sessionToken :: string
  tcp :: "conn_ref option"
  session_udpAddr :: "addr option"
  sendTCP :: "chan_ref option"
  lastSeenUnixNano :: int
  lastPingNonce :: u64
  disconnectOnce :: atomicOnce

definition session_zero :: session where
  "session_zero = \<lparr>ID = 0, ConnectedAt = time_zero, authState = sessionPreLogin,
     sessionToken = '''', tcp = None, session_udpAddr = None, sendTCP = None,
     lastSeenUnixNano = 0, lastPingNonce = 0, disconnectOnce = \<lparr>fired = False\<rparr>\<rparr>"

end

