(* ===== verification/Controlpb.thy ===== *)
theory Controlpb
  imports Prelude
begin

text \<open>
  \<open>controlpb/control.proto\<close> and the Go types generated from it: the message structs,
  the two frames with their oneof bodies, and the nil-safe getters that the library calls.
  A Go pointer that may be nil is an \<open>option\<close>. The wire encoding itself belongs to the
  protobuf run-time, a parameter of the model (theory \<open>Registry\<close>).
\<close>

section \<open>Client to server\<close>

record Login =
  login_credentials :: bytes

record UdpHandshake =
  hs_player_id :: u32
  hs_session_token :: string

record Pong =
  pong_nonce :: u64

record RpcRequest =
  req_correlation_id :: u64
  req_payload :: bytes

datatype client_body =
    ClientFrame_Login "Login option"
  | ClientFrame_UdpHandshake "UdpHandshake option"
  | ClientFrame_Pong "Pong option"
  | ClientFrame_GamePayload bytes
  | ClientFrame_RpcRequest "RpcRequest option"

text \<open>\<open>ClientFrame.Body\<close> is nil when no member of the oneof is set.\<close>

record ClientFrame =
  client_Body :: "client_body option"

definition GetCredentials :: "Login option \<Rightarrow> bytes" where
  "GetCredentials x = (case x of Some l \<Rightarrow> login_credentials l | None \<Rightarrow> [])"

definition UdpHandshake_GetPlayerId :: "UdpHandshake option \<Rightarrow> u32" where
  "UdpHandshake_GetPlayerId x = (case x of Some h \<Rightarrow> hs_player_id h | None \<Rightarrow> 0)"

definition UdpHandshake_GetSessionToken :: "UdpHandshake option \<Rightarrow> string" where
  "UdpHandshake_GetSessionToken x = (case x of Some h \<Rightarrow> hs_session_token h | None \<Rightarrow> '''')"

definition GetCorrelationId :: "RpcRequest option \<Rightarrow> u64" where
  "GetCorrelationId x = (case x of Some q \<Rightarrow> req_correlation_id q | None \<Rightarrow> 0)"

definition RpcRequest_GetPayload :: "RpcRequest option \<Rightarrow> bytes" where
  "RpcRequest_GetPayload x = (case x of Some q \<Rightarrow> req_payload q | None \<Rightarrow> [])"

definition GetBody :: "ClientFrame option \<Rightarrow> client_body option" where
  "GetBody x = (case x of Some f \<Rightarrow> client_Body f | None \<Rightarrow> None)"

section \<open>Server to client\<close>

record LoginResponse =
  lr_ok :: bool
  lr_error_message :: string
  lr_player_id :: u32
  lr_session_token :: string
  lr_udp_endpoint :: string

record UdpHandshakeAck =
  ack_ok :: bool
  ack_player_id :: u32

record Ping =
  ping_nonce :: u64

record RpcResponse =
  resp_correlation_id :: u64
  resp_ok :: bool
  resp_error_message :: string
  resp_payload :: bytes

text \<open>The library builds every body with \<open>&T{...}\<close>: its pointer is never nil.\<close>

datatype server_body =
    ServerFrame_LoginResponse LoginResponse
  | ServerFrame_UdpHandshakeAck UdpHandshakeAck
  | ServerFrame_Ping Ping
  | ServerFrame_GamePayload bytes
  | ServerFrame_RpcResponse RpcResponse

record ServerFrame =
  server_Body :: "server_body option"

lemmas getter_defs =
  GetCredentials_def UdpHandshake_GetPlayerId_def UdpHandshake_GetSessionToken_def
  GetCorrelationId_def RpcRequest_GetPayload_def GetBody_def

end

