(* ===== verification/Registry.thy ===== *)
theory Registry
  imports Controlpb
begin

text \<open>
  The protobuf run-time as a parameter (\<open>proto_rt\<close>: package
  \<open>google.golang.org/protobuf\<close> is not part of the repository), and the parts of
  \<open>dispatch.go\<close> that work on messages alone: the two handler registries and
  \<open>extractOneofBody\<close>.
\<close>

section \<open>The protobuf run-time\<close>

text \<open>
  What \<open>refl.WhichOneof(of)\<close> finds for one oneof of a message: no populated field, a
  populated field of message kind with its value, or a populated field of another kind.
\<close>

datatype 'm oneof_field = Unpopulated | MessageField 'm | ScalarField

text \<open>
  \<open>'m\<close> is the type of game messages (\<open>proto.Message\<close> values). \<open>proto_Unmarshal\<close> takes the
  message it decodes into, as the Go function does.
\<close>

record 'm proto_rt =
  proto_FullName :: "'m \<Rightarrow> string"
  proto_Oneofs :: "'m \<Rightarrow> 'm oneof_field list"
  proto_Clone :: "'m \<Rightarrow> 'm"
  proto_Reset :: "'m \<Rightarrow> 'm"
  proto_Unmarshal :: "bytes \<Rightarrow> 'm \<Rightarrow> goerr + 'm"
  proto_Marshal :: "'m \<Rightarrow> goerr + bytes"
  Unmarshal_ClientFrame :: "bytes \<Rightarrow> goerr + ClientFrame"
  Marshal_ServerFrame :: "ServerFrame \<Rightarrow> goerr + bytes"

section \<open>The oneof body\<close>

fun extract_loop :: "'m oneof_field list \<Rightarrow> 'm option" where
  "extract_loop [] = None"
| "extract_loop (Unpopulated # fs) = extract_loop fs"
| "extract_loop (ScalarField # fs) = extract_loop fs"
| "extract_loop (MessageField m # fs) = Some m"

definition extractOneofBody :: "'m proto_rt \<Rightarrow> 'm \<Rightarrow> 'm option" where
  "extractOneofBody P msg = extract_loop (proto_Oneofs P msg)"

text \<open>The first oneof whose populated field is a message decides.\<close>

lemma extract_loop_Some:
  "extract_loop fs = Some m \<longleftrightarrow>
    (\<exists>ys. dropWhile (\<lambda>f. f = Unpopulated \<or> f = ScalarField) fs = MessageField m # ys)"
  by (induction fs rule: extract_loop.induct) auto

lemma extract_loop_None:
  "extract_loop fs = None \<longleftrightarrow> (\<forall>m. MessageField m \<notin> set fs)"
  by (induction fs rule: extract_loop.induct) auto

section \<open>The handler registries\<close>

text \<open>The map is nil until the first registration.\<close>

record 'h handlerRegistry =
  client_handlers :: "(string \<rightharpoonup> 'h) option"

record 'h rpcRegistry =
  rpc_handlers :: "(string \<rightharpoonup> 'h) option"

definition handlerRegistry_zero :: "'h handlerRegistry" where
  "handlerRegistry_zero = \<lparr>client_handlers = None\<rparr>"

definition rpcRegistry_zero :: "'h rpcRegistry" where
  "rpcRegistry_zero = \<lparr>rpc_handlers = None\<rparr>"

definition handlerRegistry_register ::
  "'m proto_rt \<Rightarrow> 'm option \<Rightarrow> 'h option \<Rightarrow> 'h handlerRegistry \<Rightarrow> 'h handlerRegistry" where
  "handlerRegistry_register P prototype h r =
     (case (prototype, h) of
        (Some p, Some f) \<Rightarrow>
          (let m = (case client_handlers r of None \<Rightarrow> Map.empty | Some m \<Rightarrow> m)
           in r\<lparr>client_handlers := Some (m(proto_FullName P p \<mapsto> f))\<rparr>)
      | _ \<Rightarrow> r)"

definition handlerRegistry_lookup ::
  "'m proto_rt \<Rightarrow> 'h handlerRegistry \<Rightarrow> 'm option \<Rightarrow> 'h option" where
  "handlerRegistry_lookup P r msg =
     (case msg of
        None \<Rightarrow> None
      | Some m \<Rightarrow> (case client_handlers r of None \<Rightarrow> None | Some hs \<Rightarrow> hs (proto_FullName P m)))"

definition rpcRegistry_register ::
  "'m proto_rt \<Rightarrow> 'm option \<Rightarrow> 'h option \<Rightarrow> 'h rpcRegistry \<Rightarrow> 'h rpcRegistry" where
  "rpcRegistry_register P prototype h r =
     (case (prototype, h) of
        (Some p, Some f) \<Rightarrow>
          (let m = (case rpc_handlers r of None \<Rightarrow> Map.empty | Some m \<Rightarrow> m)
           in r\<lparr>rpc_handlers := Some (m(proto_FullName P p \<mapsto> f))\<rparr>)
      | _ \<Rightarrow> r)"

definition rpcRegistry_lookup ::
  "'m proto_rt \<Rightarrow> 'h rpcRegistry \<Rightarrow> 'm option \<Rightarrow> 'h option" where
  "rpcRegistry_lookup P r msg =
     (case msg of
        None \<Rightarrow> None
      | Some m \<Rightarrow> (case rpc_handlers r of None \<Rightarrow> None | Some hs \<Rightarrow> hs (proto_FullName P m)))"

text \<open>What both registries promise: a table from full names to the last handler registered.\<close>

locale type_registry =
  fixes reg :: "'m option \<Rightarrow> 'h option \<Rightarrow> 'r \<Rightarrow> 'r"
    and look :: "'r \<Rightarrow> 'm option \<Rightarrow> 'h option"
    and zero :: 'r
    and name :: "'m \<Rightarrow> string"
  assumes look_nil: "look r None = None"
    and look_zero: "look zero mo = None"
    and reg_nil: "reg None k r = r" "reg q None r = r"
    and look_reg: "look (reg (Some p) (Some h) r) (Some m) =
      (if name m = name p then Some h else look r (Some m))"
begin

lemma reg_overwrites:
  "look (reg (Some p) (Some h2) (reg (Some p) (Some h1) r)) (Some m) =
   look (reg (Some p) (Some h2) r) (Some m)"
  by (simp add: look_reg)

lemma reg_commutes:
  "name p \<noteq> name q \<Longrightarrow>
   look (reg (Some p) (Some h1) (reg (Some q) (Some h2) r)) m =
   look (reg (Some q) (Some h2) (reg (Some p) (Some h1) r)) m"
  by (cases m) (auto simp: look_reg look_nil)

text \<open>After any sequence of registrations: the last one for the name wins.\<close>

lemma reg_all:
  "look (fold (\<lambda>(p, h). reg (Some p) (Some h)) ps r) (Some m) =
   (case map_of (rev (map (\<lambda>(p, h). (name p, h)) ps)) (name m) of
      Some h \<Rightarrow> Some h | None \<Rightarrow> look r (Some m))"
proof (induction ps arbitrary: r)
  case Nil
  then show ?case by simp
next
  case (Cons ph ps)
  obtain p h where "ph = (p, h)" by fastforce
  with Cons.IH [of "reg (Some p) (Some h) r"] show ?case
    by (auto simp: look_reg map_add_def split: option.splits)
qed

lemma reg_all_from_zero:
  "look (fold (\<lambda>(p, h). reg (Some p) (Some h)) ps zero) (Some m) =
   map_of (rev (map (\<lambda>(p, h). (name p, h)) ps)) (name m)"
  by (simp add: reg_all look_zero split: option.splits)

end

interpretation client_reg: type_registry
  "handlerRegistry_register P" "handlerRegistry_lookup P" handlerRegistry_zero "proto_FullName P"
  for P
  by unfold_locales
    (auto simp: handlerRegistry_register_def handlerRegistry_lookup_def handlerRegistry_zero_def
      Let_def split: option.splits)

interpretation rpc_reg: type_registry
  "rpcRegistry_register P" "rpcRegistry_lookup P" rpcRegistry_zero "proto_FullName P"
  for P
  by unfold_locales
    (auto simp: rpcRegistry_register_def rpcRegistry_lookup_def rpcRegistry_zero_def
      Let_def split: option.splits)

section \<open>Properties\<close>

text \<open>
  \<open>extractOneofBody\<close> returns the populated message of the first oneof that holds one, in
  declaration order: unpopulated oneofs and oneofs populated with a field of another kind are
  passed over, and it returns nil exactly when no oneof holds a message.
\<close>

lemma extractOneofBody_first:
  "extractOneofBody P msg =
    (case filter (\<lambda>f. case f of MessageField _ \<Rightarrow> True | _ \<Rightarrow> False) (proto_Oneofs P msg) of
       MessageField m # _ \<Rightarrow> Some m
     | _ \<Rightarrow> None)"
proof -
  have "extract_loop fs =
    (case filter (\<lambda>f. case f of MessageField _ \<Rightarrow> True | _ \<Rightarrow> False) fs of
       MessageField m # _ \<Rightarrow> Some m | _ \<Rightarrow> None)" for fs :: "'a oneof_field list"
    by (induction fs rule: extract_loop.induct) auto
  then show ?thesis by (simp add: extractOneofBody_def)
qed

end

