(* ===== verification/Server.thy ===== *)
theory Server
  imports Session Registry
begin

text \<open>
  \<open>server.go\<close> and the sending half of \<open>udp.go\<close>: configuration, server state,
  construction and registration, and the three primitives every handler uses
  (\<open>pushTCP\<close>, \<open>scheduleDisconnect\<close>, \<open>cleanupSession\<close>) with \<open>udpSendRaw\<close>.

  Pointers are addresses: \<open>heap\<close>, \<open>chans\<close> and \<open>conns\<close> hold the \<open>Session\<close>
  objects, outbound channels and TCP connections. A Go run-time panic that nothing recovers
  (send on a closed channel, close of a closed channel, a nil interface call) sets
  \<open>panicked\<close>. Log output is not part of the state.
\<close>

section \<open>Channels and connections\<close>

record chan =
  buf :: "bytes list"
  cap :: nat
  is_closed :: bool

text \<open>
  A TCP connection: the peer's name, the bytes that have arrived and not been read, how
  the peer ended its side (None while it is open), the bytes written to the peer, and
  whether the server closed it.
\<close>

record conn =
  c_remote :: addr
  c_in :: bytes
  c_end :: "goerr option"
  c_out :: bytes
  c_closed :: bool

section \<open>The server's state\<close>

text \<open>Invocations of user callbacks, in order.\<close>

datatype call =
    CallOnAuth sref
  | CallOnConnect sref
  | CallOnDisconnect sref "goerr option"
  | CallHandler sref string
  | CallRPC sref string u64
  | CallOnTick u64

text \<open>
  The fields of \<open>Server\<close> that change while it runs, the three heaps, and three records of
  what left the server: datagrams handed to \<open>WriteTo\<close>, callbacks made, and the
  game's own state \<open>'g\<close> (what callbacks and handlers share: closures,
  \<open>Session.UserData\<close>). \<open>draws\<close> counts the readings of clock, random source and map
  order, so that every reading is a fresh one.
\<close>

record 'g server =
  events :: "event queue"
  tickCount :: u64
  lastPingBatchAt :: int
  sessions :: "pid \<rightharpoonup> sref"
  udpSessions :: "addr \<rightharpoonup> sref"
  udpConn :: bool
  running :: bool
  heap :: "sref \<Rightarrow> session"
  chans :: "chan_ref \<Rightarrow> chan"
  conns :: "conn_ref \<Rightarrow> conn"
  next_ref :: nat
  udp_sent :: "(addr \<times> bytes) list"
  calls :: "call list"
  game :: 'g
  draws :: nat
  panicked :: bool

section \<open>User code\<close>

text \<open>How a call into user code ends: with a value, or in a panic.\<close>

datatype 'a outcome = Returned 'a | Panicked string

record tickctx =
  tc_tick :: u64
  tc_now :: int

text \<open>
  What a handler may ask of its \<open>TickCtx\<close>, in order (\<open>tickctx.go\<close>). The read-only
  methods (\<open>Sessions\<close>, \<open>Session\<close>, \<open>Tick\<close>, \<open>Now\<close>) are covered by giving the handler
  the server state and the context.
\<close>

datatype 'm command =
    Cmd_SendUDP pid 'm
  | Cmd_SendTCP pid 'm
  | Cmd_BroadcastUDP 'm
  | Cmd_BroadcastTCP 'm
  | Cmd_Disconnect pid string

text \<open>
  A callback returns the game's next state; a handler also the commands it issued before it
  returned or panicked.
\<close>

type_synonym ('m, 'g) AuthenticateFn = "'m \<Rightarrow> 'g server \<Rightarrow> 'g \<times> (goerr + pid) outcome"
type_synonym ('m, 'g) OnAuthFn = "sref \<Rightarrow> 'm \<Rightarrow> 'g server \<Rightarrow> 'g \<times> unit outcome"
type_synonym 'g OnConnectFn = "sref \<Rightarrow> 'g server \<Rightarrow> 'g \<times> unit outcome"
type_synonym 'g OnDisconnectFn = "sref \<Rightarrow> goerr option \<Rightarrow> 'g server \<Rightarrow> 'g \<times> unit outcome"
type_synonym ('m, 'g) TickFn = "tickctx \<Rightarrow> 'g server \<Rightarrow> 'g \<times> 'm command list \<times> unit outcome"
type_synonym ('m, 'g) ClientHandler =
  "tickctx \<Rightarrow> sref \<Rightarrow> 'm \<Rightarrow> 'g server \<Rightarrow> 'g \<times> 'm command list \<times> unit outcome"
type_synonym ('m, 'g) RPCHandler =
  "tickctx \<Rightarrow> sref \<Rightarrow> 'm \<Rightarrow> 'g server \<Rightarrow> 'g \<times> 'm command list \<times> ('m option \<times> goerr option) outcome"

section \<open>Configuration\<close>

record ('m, 'g) config =
  TCPAddr :: string
  UDPAddr :: string
  UDPAdvertiseAddr :: string
  TickRate :: int
  Authenticate :: "('m, 'g) AuthenticateFn option"
  LoginPrototype :: "'m option"
  ClientMessagePrototype :: "'m option"
  RPCRequestPrototype :: "'m option"
  OnAuth :: "('m, 'g) OnAuthFn option"
  OnConnect :: "'g OnConnectFn option"
  OnDisconnect :: "'g OnDisconnectFn option"
  MaxFrameLen :: u32
  SendQueueDepth :: int
  EventQueueDepth :: int
  MaxUDPPayload :: int
  PingInterval :: int
  PingTimeout :: int

text \<open>
  The parts of \<open>Server\<close> fixed while it runs (configuration, registries, tick callback) and
  the environment: the protobuf run-time and the readings of random source, clock and map
  order, each indexed by \<open>draws\<close>.
\<close>

record ('m, 'g) env =
  cfg :: "('m, 'g) config"
  handlers :: "('m, 'g) ClientHandler handlerRegistry"
  rpcHandlers :: "('m, 'g) RPCHandler rpcRegistry"
  onTick :: "('m, 'g) TickFn option"
  pb :: "'m proto_rt"
  rand_Read :: "nat \<Rightarrow> nat \<Rightarrow> bytes option"
  time_Now :: "nat \<Rightarrow> int"
  range_sessions :: "nat \<Rightarrow> (pid \<rightharpoonup> sref) \<Rightarrow> pid list"

text \<open>Documented behaviour of the environment: what \<open>range\<close> and \<open>io.ReadFull\<close> promise.\<close>

definition env_ok :: "('m, 'g) env \<Rightarrow> bool" where
  "env_ok E \<longleftrightarrow>
     (\<forall>k m. finite (dom m) \<longrightarrow> range_order m (range_sessions E k m)) \<and>
     (\<forall>k n b. rand_Read E k n = Some b \<longrightarrow> length b = n)"

definition draw :: "'g server \<Rightarrow> 'g server" where
  "draw s = s\<lparr>draws := Suc (draws s)\<rparr>"

section \<open>Construction and registration\<close>

definition DefaultTickRate :: int where
  "DefaultTickRate = 50 * time_Millisecond"

definition DefaultMaxFrameLen :: u32 where
  "DefaultMaxFrameLen = push_bit 20 1"

definition DefaultSendQueueDepth :: int where
  "DefaultSendQueueDepth = 256"

definition DefaultMaxUDPPayload :: int where
  "DefaultMaxUDPPayload = 1200"

definition config_defaults :: "('m, 'g) config \<Rightarrow> ('m, 'g) config" where
  "config_defaults c =
     (let c1 = (if TickRate c \<le> 0 then c\<lparr>TickRate := DefaultTickRate\<rparr> else c);
          c2 = (if MaxFrameLen c1 = 0 then c1\<lparr>MaxFrameLen := DefaultMaxFrameLen\<rparr> else c1);
          c3 = (if SendQueueDepth c2 \<le> 0 then c2\<lparr>SendQueueDepth := DefaultSendQueueDepth\<rparr> else c2);
          c4 = (if EventQueueDepth c3 \<le> 0 then c3\<lparr>EventQueueDepth := DefaultEventQueueDepth\<rparr> else c3)
      in if MaxUDPPayload c4 \<le> 0 then c4\<lparr>MaxUDPPayload := DefaultMaxUDPPayload\<rparr> else c4)"

definition chan_zero :: chan where
  "chan_zero = \<lparr>buf = [], cap = 0, is_closed = False\<rparr>"

definition conn_zero :: conn where
  "conn_zero = \<lparr>c_remote = '''', c_in = [], c_end = None, c_out = [], c_closed = False\<rparr>"

text \<open>
  What the heap holds at an address that no connection has been given yet: an object on
  which nothing can be scheduled or sent.
\<close>

definition unallocated :: session where
  "unallocated = session_zero\<lparr>disconnectOnce := \<lparr>fired = True\<rparr>\<rparr>"

text \<open>
  \<open>NewServer(cfg)\<close>: the configuration with defaults, fresh registries and an empty state.
  The protobuf run-time, the environment's readings and the initial game state are given.
\<close>

definition new_state :: "('m, 'g) config \<Rightarrow> 'g \<Rightarrow> 'g server" where
  "new_state c g =
     \<lparr>events = newQueue (EventQueueDepth c), tickCount = 0, lastPingBatchAt = time_zero,
      sessions = Map.empty, udpSessions = Map.empty, udpConn = False, running = False,
      heap = (\<lambda>_. unallocated), chans = (\<lambda>_. chan_zero), conns = (\<lambda>_. conn_zero),
      next_ref = 0, udp_sent = [], calls = [], game = g, draws = 0, panicked = False\<rparr>"

definition NewServer ::
  "('m, 'g) config \<Rightarrow> 'm proto_rt \<Rightarrow> (nat \<Rightarrow> nat \<Rightarrow> bytes option) \<Rightarrow> (nat \<Rightarrow> int) \<Rightarrow>
   (nat \<Rightarrow> (pid \<rightharpoonup> sref) \<Rightarrow> pid list) \<Rightarrow> 'g \<Rightarrow> ('m, 'g) env \<times> 'g server" where
  "NewServer c P rnd clk rng g =
     (let c' = config_defaults c in
      (\<lparr>cfg = c', handlers = handlerRegistry_zero, rpcHandlers = rpcRegistry_zero, onTick = None,
        pb = P, rand_Read = rnd, time_Now = clk, range_sessions = rng\<rparr>,
       new_state c' g))"

definition set_OnTick :: "('m, 'g) TickFn option \<Rightarrow> ('m, 'g) env \<Rightarrow> ('m, 'g) env" where
  "set_OnTick cb E = E\<lparr>onTick := cb\<rparr>"

definition HandleClient ::
  "'m option \<Rightarrow> ('m, 'g) ClientHandler option \<Rightarrow> ('m, 'g) env \<Rightarrow> ('m, 'g) env" where
  "HandleClient prototype handler E =
     E\<lparr>handlers := handlerRegistry_register (pb E) prototype handler (handlers E)\<rparr>"

definition HandleRPC ::
  "'m option \<Rightarrow> ('m, 'g) RPCHandler option \<Rightarrow> ('m, 'g) env \<Rightarrow> ('m, 'g) env" where
  "HandleRPC prototype handler E =
     E\<lparr>rpcHandlers := rpcRegistry_register (pb E) prototype handler (rpcHandlers E)\<rparr>"

section \<open>Primitives\<close>

definition upd_sess :: "sref \<Rightarrow> (session \<Rightarrow> session) \<Rightarrow> 'g server \<Rightarrow> 'g server" where
  "upd_sess r f s = s\<lparr>heap := (heap s)(r := f (heap s r))\<rparr>"

definition close_conn :: "conn_ref option \<Rightarrow> 'g server \<Rightarrow> 'g server" where
  "close_conn c s = (case c of
      None \<Rightarrow> s
    | Some k \<Rightarrow> s\<lparr>conns := (conns s)(k := (conns s k)\<lparr>c_closed := True\<rparr>)\<rparr>)"

definition close_chan :: "chan_ref \<Rightarrow> 'g server \<Rightarrow> 'g server" where
  "close_chan k s =
     (if is_closed (chans s k) then s\<lparr>panicked := True\<rparr>
      else s\<lparr>chans := (chans s)(k := (chans s k)\<lparr>is_closed := True\<rparr>)\<rparr>)"

definition scheduleDisconnect :: "sref option \<Rightarrow> goerr \<Rightarrow> 'g server \<Rightarrow> 'g server" where
  "scheduleDisconnect se err s = (case se of
      None \<Rightarrow> s
    | Some r \<Rightarrow>
        (let (w, runs) = once_Do (disconnectOnce (heap s r));
             s1 = upd_sess r (disconnectOnce_update (\<lambda>_. w)) s in
         if runs then
           (let (q, ok) = push (disconnect_event r err) (events s1) in
            if ok then s1\<lparr>events := q\<rparr> else close_conn (tcp (heap s1 r)) s1)
         else s1))"

definition pushTCP :: "sref option \<Rightarrow> bytes \<Rightarrow> 'g server \<Rightarrow> 'g server" where
  "pushTCP se p s = (case se of
      None \<Rightarrow> s
    | Some r \<Rightarrow> (case sendTCP (heap s r) of
        None \<Rightarrow> s
      | Some k \<Rightarrow>
          (let c = chans s k in
           if is_closed c then s\<lparr>panicked := True\<rparr>
           else if length (buf c) < cap c then
             s\<lparr>chans := (chans s)(k := c\<lparr>buf := buf c @ [p]\<rparr>)\<rparr>
           else scheduleDisconnect (Some r) (Sentinel ErrOutboundQueueFull) s)))"

definition udpSendRaw :: "('m, 'g) env \<Rightarrow> addr option \<Rightarrow> bytes \<Rightarrow> 'g server \<Rightarrow> 'g server" where
  "udpSendRaw E a p s = (case a of
      None \<Rightarrow> s
    | Some ad \<Rightarrow>
        if \<not> udpConn s then s
        else if int (length p) > MaxUDPPayload (cfg E) then s
        else s\<lparr>udp_sent := udp_sent s @ [(ad, p)]\<rparr>)"

text \<open>The three callbacks made with panic recovery: a panic is only logged.\<close>

definition record_call :: "call \<Rightarrow> 'g \<Rightarrow> 'g server \<Rightarrow> 'g server" where
  "record_call c g s = s\<lparr>game := g, calls := calls s @ [c]\<rparr>"

definition invokeOnDisconnect ::
  "'g OnDisconnectFn \<Rightarrow> sref \<Rightarrow> goerr option \<Rightarrow> 'g server \<Rightarrow> 'g server" where
  "invokeOnDisconnect cb r err s = (case cb r err s of
      (g, Returned _) \<Rightarrow> record_call (CallOnDisconnect r err) g s
    | (g, Panicked _) \<Rightarrow> record_call (CallOnDisconnect r err) g s)"

definition invokeOnConnect :: "'g OnConnectFn \<Rightarrow> sref \<Rightarrow> 'g server \<Rightarrow> 'g server" where
  "invokeOnConnect cb r s = (case cb r s of
      (g, Returned _) \<Rightarrow> record_call (CallOnConnect r) g s
    | (g, Panicked _) \<Rightarrow> record_call (CallOnConnect r) g s)"

definition invokeOnAuth :: "('m, 'g) OnAuthFn \<Rightarrow> sref \<Rightarrow> 'm \<Rightarrow> 'g server \<Rightarrow> 'g server" where
  "invokeOnAuth cb r creds s = (case cb r creds s of
      (g, Returned _) \<Rightarrow> record_call (CallOnAuth r) g s
    | (g, Panicked _) \<Rightarrow> record_call (CallOnAuth r) g s)"

definition cleanupSession ::
  "('m, 'g) env \<Rightarrow> sref option \<Rightarrow> goerr option \<Rightarrow> 'g server \<Rightarrow> 'g server" where
  "cleanupSession E se err s = (case se of
      None \<Rightarrow> s
    | Some r \<Rightarrow>
        (let s1 = (if ID (heap s r) \<noteq> 0
                   then s\<lparr>sessions := (sessions s)(ID (heap s r) := None)\<rparr> else s);
             s2 = (case session_udpAddr (heap s1 r) of
                     None \<Rightarrow> s1
                   | Some a \<Rightarrow> s1\<lparr>udpSessions := (udpSessions s1)(a := None)\<rparr>);
             s3 = close_conn (tcp (heap s2 r)) s2;
             s4 = (case sendTCP (heap s3 r) of
                     None \<Rightarrow> s3
                   | Some k \<Rightarrow> upd_sess r (sendTCP_update (\<lambda>_. None)) (close_chan k s3))
         in case OnDisconnect (cfg E) of
              None \<Rightarrow> s4
            | Some cb \<Rightarrow> invokeOnDisconnect cb r err s4))"

section \<open>What the primitives change\<close>

definition mark_fired :: "session \<Rightarrow> session" where
  "mark_fired x = x\<lparr>disconnectOnce := (disconnectOnce x)\<lparr>fired := True\<rparr>\<rparr>"

lemma mark_fired_simps [simp]:
  "ID (mark_fired x) = ID x" "ConnectedAt (mark_fired x) = ConnectedAt x"
  "authState (mark_fired x) = authState x" "sessionToken (mark_fired x) = sessionToken x"
  "tcp (mark_fired x) = tcp x" "session_udpAddr (mark_fired x) = session_udpAddr x"
  "sendTCP (mark_fired x) = sendTCP x" "lastSeenUnixNano (mark_fired x) = lastSeenUnixNano x"
  "lastPingNonce (mark_fired x) = lastPingNonce x"
  "fired (disconnectOnce (mark_fired x))"
  by (simp_all add: mark_fired_def)

lemma upd_sess_simps [simp, frame_simps]:
  "events (upd_sess r f s) = events s" "tickCount (upd_sess r f s) = tickCount s"
  "lastPingBatchAt (upd_sess r f s) = lastPingBatchAt s" "sessions (upd_sess r f s) = sessions s"
  "udpSessions (upd_sess r f s) = udpSessions s" "udpConn (upd_sess r f s) = udpConn s"
  "running (upd_sess r f s) = running s" "chans (upd_sess r f s) = chans s"
  "conns (upd_sess r f s) = conns s" "next_ref (upd_sess r f s) = next_ref s"
  "udp_sent (upd_sess r f s) = udp_sent s" "calls (upd_sess r f s) = calls s"
  "game (upd_sess r f s) = game s" "draws (upd_sess r f s) = draws s"
  "panicked (upd_sess r f s) = panicked s"
  by (simp_all add: upd_sess_def)

lemma heap_upd_sess [simp]:
  "heap (upd_sess r f s) r' = (if r' = r then f (heap s r) else heap s r')"
  by (simp add: upd_sess_def)

lemma close_conn_simps [simp, frame_simps]:
  "events (close_conn c s) = events s" "tickCount (close_conn c s) = tickCount s"
  "lastPingBatchAt (close_conn c s) = lastPingBatchAt s" "sessions (close_conn c s) = sessions s"
  "udpSessions (close_conn c s) = udpSessions s" "udpConn (close_conn c s) = udpConn s"
  "running (close_conn c s) = running s" "chans (close_conn c s) = chans s"
  "heap (close_conn c s) = heap s" "next_ref (close_conn c s) = next_ref s"
  "udp_sent (close_conn c s) = udp_sent s" "calls (close_conn c s) = calls s"
  "game (close_conn c s) = game s" "draws (close_conn c s) = draws s"
  "panicked (close_conn c s) = panicked s"
  by (simp_all add: close_conn_def split: option.splits)

lemma draw_simps [simp, frame_simps]:
  "events (draw s) = events s" "tickCount (draw s) = tickCount s"
  "lastPingBatchAt (draw s) = lastPingBatchAt s" "sessions (draw s) = sessions s"
  "udpSessions (draw s) = udpSessions s" "udpConn (draw s) = udpConn s"
  "running (draw s) = running s" "chans (draw s) = chans s"
  "heap (draw s) = heap s" "next_ref (draw s) = next_ref s" "conns (draw s) = conns s"
  "udp_sent (draw s) = udp_sent s" "calls (draw s) = calls s"
  "game (draw s) = game s" "draws (draw s) = Suc (draws s)" "panicked (draw s) = panicked s"
  by (simp_all add: draw_def)

lemma record_call_simps [simp, frame_simps]:
  "events (record_call c g s) = events s" "tickCount (record_call c g s) = tickCount s"
  "lastPingBatchAt (record_call c g s) = lastPingBatchAt s"
  "sessions (record_call c g s) = sessions s"
  "udpSessions (record_call c g s) = udpSessions s" "udpConn (record_call c g s) = udpConn s"
  "running (record_call c g s) = running s" "chans (record_call c g s) = chans s"
  "heap (record_call c g s) = heap s" "next_ref (record_call c g s) = next_ref s"
  "conns (record_call c g s) = conns s" "udp_sent (record_call c g s) = udp_sent s"
  "calls (record_call c g s) = calls s @ [c]" "game (record_call c g s) = g"
  "draws (record_call c g s) = draws s" "panicked (record_call c g s) = panicked s"
  by (simp_all add: record_call_def)

lemma invoke_eq:
  "invokeOnDisconnect cd r err s = record_call (CallOnDisconnect r err) (fst (cd r err s)) s"
  "invokeOnConnect cc r s = record_call (CallOnConnect r) (fst (cc r s)) s"
  "invokeOnAuth ca r m s = record_call (CallOnAuth r) (fst (ca r m s)) s"
  by (simp_all add: invokeOnDisconnect_def invokeOnConnect_def invokeOnAuth_def
      split: prod.splits outcome.splits)

lemma scheduleDisconnect_None [simp]: "scheduleDisconnect None err s = s"
  by (simp add: scheduleDisconnect_def)

lemma pushTCP_None [simp]: "pushTCP None p s = s"
  by (simp add: pushTCP_def)

text \<open>
  \<open>scheduleDisconnect\<close> on a session in the three situations: already scheduled, scheduled
  now, and refused by a full event queue.
\<close>

lemma scheduleDisconnect_fired:
  "fired (disconnectOnce (heap s r)) \<Longrightarrow> scheduleDisconnect (Some r) err s = s"
  by (simp add: scheduleDisconnect_def once_Do_def upd_sess_def)

lemma scheduleDisconnect_queued:
  assumes "\<not> fired (disconnectOnce (heap s r))" "length (ch (events s)) < depth (events s)"
  shows "scheduleDisconnect (Some r) err s =
    upd_sess r mark_fired s
      \<lparr>events := (events s)\<lparr>ch := ch (events s) @ [disconnect_event r err]\<rparr>\<rparr>"
  using assms by (simp add: scheduleDisconnect_def once_Do_def push_def upd_sess_def mark_fired_def)

lemma scheduleDisconnect_full:
  assumes "\<not> fired (disconnectOnce (heap s r))" "\<not> length (ch (events s)) < depth (events s)"
  shows "scheduleDisconnect (Some r) err s =
    close_conn (tcp (heap s r)) (upd_sess r mark_fired s)"
  using assms by (simp add: scheduleDisconnect_def once_Do_def push_def upd_sess_def mark_fired_def)

lemma scheduleDisconnect_cases:
  obtains "fired (disconnectOnce (heap s r))" "scheduleDisconnect (Some r) err s = s"
  | "\<not> fired (disconnectOnce (heap s r))" "length (ch (events s)) < depth (events s)"
    "scheduleDisconnect (Some r) err s =
      upd_sess r mark_fired s
        \<lparr>events := (events s)\<lparr>ch := ch (events s) @ [disconnect_event r err]\<rparr>\<rparr>"
  | "\<not> fired (disconnectOnce (heap s r))" "\<not> length (ch (events s)) < depth (events s)"
    "scheduleDisconnect (Some r) err s =
      close_conn (tcp (heap s r)) (upd_sess r mark_fired s)"
  using scheduleDisconnect_fired scheduleDisconnect_queued scheduleDisconnect_full by blast

lemma pushTCP_cases:
  obtains "sendTCP (heap s r) = None" "pushTCP (Some r) p s = s"
  | k where "sendTCP (heap s r) = Some k" "is_closed (chans s k)"
    "pushTCP (Some r) p s = s\<lparr>panicked := True\<rparr>"
  | k where "sendTCP (heap s r) = Some k" "\<not> is_closed (chans s k)"
    "length (buf (chans s k)) < cap (chans s k)"
    "pushTCP (Some r) p s =
      s\<lparr>chans := (chans s)(k := (chans s k)\<lparr>buf := buf (chans s k) @ [p]\<rparr>)\<rparr>"
  | k where "sendTCP (heap s r) = Some k" "\<not> is_closed (chans s k)"
    "\<not> length (buf (chans s k)) < cap (chans s k)"
    "pushTCP (Some r) p s = scheduleDisconnect (Some r) (Sentinel ErrOutboundQueueFull) s"
  by (cases "sendTCP (heap s r)") (auto simp: pushTCP_def Let_def)

text \<open>The usual case: the session's channel is open and has room.\<close>

definition can_queue :: "'g server \<Rightarrow> sref \<Rightarrow> chan_ref \<Rightarrow> bool" where
  "can_queue s r k \<longleftrightarrow> sendTCP (heap s r) = Some k \<and> \<not> is_closed (chans s k) \<and>
     length (buf (chans s k)) < cap (chans s k)"

lemma pushTCP_queued:
  "can_queue s r k \<Longrightarrow> pushTCP (Some r) p s =
    s\<lparr>chans := (chans s)(k := (chans s k)\<lparr>buf := buf (chans s k) @ [p]\<rparr>)\<rparr>"
  by (simp add: can_queue_def pushTCP_def Let_def)

lemma udpSendRaw_eq:
  "udpSendRaw E a p s =
    s\<lparr>udp_sent := udp_sent s @
       (case a of Some ad \<Rightarrow>
          if udpConn s \<and> int (length p) \<le> MaxUDPPayload (cfg E) then [(ad, p)] else []
        | None \<Rightarrow> [])\<rparr>"
  by (simp add: udpSendRaw_def split: option.splits)

section \<open>Sending effects\<close>

text \<open>
  The part of a session that only the handshake and the cleanup change.
\<close>

definition core :: "session \<Rightarrow>
    pid \<times> sessionAuthState \<times> string \<times> conn_ref option \<times> addr option \<times> chan_ref option" where
  "core x = (ID x, authState x, sessionToken x, tcp x, session_udpAddr x, sendTCP x)"

fun dispatch_call :: "call \<Rightarrow> bool" where
  "dispatch_call (CallHandler _ _) = True"
| "dispatch_call (CallRPC _ _ _) = True"
| "dispatch_call (CallOnTick _) = True"
| "dispatch_call _ = False"

text \<open>No session holds a closed outbound channel.\<close>

definition chan_safe :: "'g server \<Rightarrow> bool" where
  "chan_safe s \<longleftrightarrow> (\<forall>r k. sendTCP (heap s r) = Some k \<longrightarrow> \<not> is_closed (chans s k))"

text \<open>The event queue holds at most its capacity.\<close>

definition queue_bounded :: "'g server \<Rightarrow> bool" where
  "queue_bounded s \<longleftrightarrow> length (ch (events s)) \<le> depth (events s)"

text \<open>The disconnect events that a state change appended.\<close>

definition scheduled :: "'g server \<Rightarrow> 'g server \<Rightarrow> event list \<Rightarrow> bool" where
  "scheduled s s' es \<longleftrightarrow>
     distinct (map sess es) \<and>
     (\<forall>e \<in> set es. \<exists>r err. e = disconnect_event r err \<and>
        \<not> fired (disconnectOnce (heap s r)) \<and> fired (disconnectOnce (heap s' r)))"

text \<open>
  \<open>sends s s'\<close>: everything that handlers, broadcasts, replies and keepalive may do to the
  server. The tables of sessions, the core of each session and the closedness of the channels
  stay; outbound queues, datagrams and handler calls only grow; disconnects may be scheduled,
  each session's at most once; nothing is read from or written to a connection; and nothing
  panics while no session holds a closed channel.
\<close>

definition sends :: "'g server \<Rightarrow> 'g server \<Rightarrow> bool" where
  "sends s s' \<longleftrightarrow>
     sessions s' = sessions s \<and> udpSessions s' = udpSessions s \<and> next_ref s' = next_ref s \<and>
     tickCount s' = tickCount s \<and> udpConn s' = udpConn s \<and> running s' = running s \<and>
     (\<forall>r. core (heap s' r) = core (heap s r) \<and>
        (fired (disconnectOnce (heap s r)) \<longrightarrow> fired (disconnectOnce (heap s' r)))) \<and>
     (\<forall>k. is_closed (chans s' k) = is_closed (chans s k) \<and> cap (chans s' k) = cap (chans s k) \<and>
        (\<exists>ps. buf (chans s' k) = buf (chans s k) @ ps)) \<and>
     (\<forall>k. c_closed (conns s k) \<longrightarrow> c_closed (conns s' k)) \<and>
     (\<forall>k. c_in (conns s' k) = c_in (conns s k) \<and> c_out (conns s' k) = c_out (conns s k)) \<and>
     depth (events s') = depth (events s) \<and>
     (\<exists>es. ch (events s') = ch (events s) @ es \<and> scheduled s s' es) \<and>
     (\<exists>cs. calls s' = calls s @ cs \<and> list_all dispatch_call cs) \<and>
     (\<exists>ds. udp_sent s' = udp_sent s @ ds) \<and>
     (chan_safe s \<longrightarrow> panicked s' = panicked s) \<and>
     (queue_bounded s \<longrightarrow> queue_bounded s')"

lemma core_eq_iff:
  "core x = core y \<longleftrightarrow> ID x = ID y \<and> authState x = authState y \<and> sessionToken x = sessionToken y \<and>
     tcp x = tcp y \<and> session_udpAddr x = session_udpAddr y \<and> sendTCP x = sendTCP y"
  by (auto simp: core_def)

lemma sends_chan_safe: "sends s s' \<Longrightarrow> chan_safe s' \<longleftrightarrow> chan_safe s"
  by (simp add: sends_def chan_safe_def core_eq_iff)

lemma scheduled_Nil [simp]: "scheduled s s' []"
  by (simp add: scheduled_def)

lemma disconnect_event_sess [simp]:
  "sess (disconnect_event r err) = Some r" "kind (disconnect_event r err) = eventDisconnect"
  "reason (disconnect_event r err) = Some err"
  by (simp_all add: event_defs)

lemma scheduled_trans:
  assumes "scheduled s s1 es" "scheduled s1 s2 fs"
    and "\<And>r. fired (disconnectOnce (heap s r)) \<Longrightarrow> fired (disconnectOnce (heap s1 r))"
    and "\<And>r. fired (disconnectOnce (heap s1 r)) \<Longrightarrow> fired (disconnectOnce (heap s2 r))"
  shows "scheduled s s2 (es @ fs)"
proof -
  have "set (map sess es) \<inter> set (map sess fs) = {}"
    using assms(1,2) by (fastforce simp: scheduled_def)
  with assms(1,2) have "distinct (map sess (es @ fs))"
    by (simp add: scheduled_def)
  moreover have "\<exists>r err. e = disconnect_event r err \<and>
      \<not> fired (disconnectOnce (heap s r)) \<and> fired (disconnectOnce (heap s2 r))"
    if "e \<in> set (es @ fs)" for e
  proof (cases "e \<in> set es")
    case True
    with assms(1) obtain r err where "e = disconnect_event r err"
      "\<not> fired (disconnectOnce (heap s r))" "fired (disconnectOnce (heap s1 r))"
      unfolding scheduled_def by blast
    with assms(4) show ?thesis by blast
  next
    case False
    with that have "e \<in> set fs" by simp
    with assms(2) obtain r err where "e = disconnect_event r err"
      "\<not> fired (disconnectOnce (heap s1 r))" "fired (disconnectOnce (heap s2 r))"
      unfolding scheduled_def by blast
    with assms(3) show ?thesis by blast
  qed
  ultimately show ?thesis
    by (simp add: scheduled_def)
qed

lemma sends_refl [simp, intro]: "sends s s"
  by (simp add: sends_def)

lemma sends_static:
  assumes "sends s s'"
  shows "sessions s' = sessions s" "udpSessions s' = udpSessions s" "next_ref s' = next_ref s"
    "tickCount s' = tickCount s" "udpConn s' = udpConn s" "running s' = running s"
    "core (heap s' r) = core (heap s r)" "depth (events s') = depth (events s)"
    "is_closed (chans s' k) = is_closed (chans s k)" "cap (chans s' k) = cap (chans s k)"
  using assms by (simp_all add: sends_def)

lemma sends_core:
  assumes "sends s s'"
  shows "ID (heap s' r) = ID (heap s r)" "authState (heap s' r) = authState (heap s r)"
    "sessionToken (heap s' r) = sessionToken (heap s r)" "tcp (heap s' r) = tcp (heap s r)"
    "session_udpAddr (heap s' r) = session_udpAddr (heap s r)"
    "sendTCP (heap s' r) = sendTCP (heap s r)"
  using sends_static(7) [OF assms, of r] by (simp_all add: core_eq_iff)

lemma sends_fired:
  "sends s s' \<Longrightarrow> fired (disconnectOnce (heap s r)) \<Longrightarrow> fired (disconnectOnce (heap s' r))"
  by (simp add: sends_def)

lemma sends_conn: "sends s s' \<Longrightarrow> c_closed (conns s k) \<Longrightarrow> c_closed (conns s' k)"
  by (simp add: sends_def)

lemma sends_stream:
  "sends s s' \<Longrightarrow> c_in (conns s' k) = c_in (conns s k)"
  "sends s s' \<Longrightarrow> c_out (conns s' k) = c_out (conns s k)"
  by (simp_all add: sends_def)

lemma sends_panicked: "sends s s' \<Longrightarrow> chan_safe s \<Longrightarrow> panicked s' = panicked s"
  by (simp add: sends_def)

lemma sends_queue_bounded: "sends s s' \<Longrightarrow> queue_bounded s \<Longrightarrow> queue_bounded s'"
  by (simp add: sends_def)

lemma sends_events:
  assumes "sends s s'"
  obtains es where "ch (events s') = ch (events s) @ es" "scheduled s s' es"
  using assms unfolding sends_def by (elim conjE exE) rule

lemma sends_calls:
  assumes "sends s s'"
  obtains cs where "calls s' = calls s @ cs" "list_all dispatch_call cs"
  using assms unfolding sends_def by (elim conjE exE) rule

lemma sends_buf:
  assumes "sends s s'"
  obtains ps where "buf (chans s' k) = buf (chans s k) @ ps"
  using assms unfolding sends_def by blast

lemma sends_udp_sent:
  assumes "sends s s'"
  obtains ds where "udp_sent s' = udp_sent s @ ds"
  using assms unfolding sends_def by blast

lemma sends_trans [trans]:
  assumes a: "sends s s1" and b: "sends s1 s2"
  shows "sends s s2"
proof -
  obtain es fs where "ch (events s1) = ch (events s) @ es" "scheduled s s1 es"
      "ch (events s2) = ch (events s1) @ fs" "scheduled s1 s2 fs"
    using sends_events [OF a] sends_events [OF b] by metis
  then have "\<exists>es. ch (events s2) = ch (events s) @ es \<and> scheduled s s2 es"
    using scheduled_trans [of s s1 es s2 fs] sends_fired [OF a] sends_fired [OF b] by auto
  moreover obtain cs cs' where "calls s1 = calls s @ cs" "list_all dispatch_call cs"
      "calls s2 = calls s1 @ cs'" "list_all dispatch_call cs'"
    using sends_calls [OF a] sends_calls [OF b] by metis
  then have "\<exists>cs. calls s2 = calls s @ cs \<and> list_all dispatch_call cs"
    by auto
  moreover have "\<exists>ps. buf (chans s2 k) = buf (chans s k) @ ps" for k
    using sends_buf [OF a, of k] sends_buf [OF b, of k] by (metis append.assoc)
  moreover have "\<exists>ds. udp_sent s2 = udp_sent s @ ds"
    using sends_udp_sent [OF a] sends_udp_sent [OF b] by (metis append.assoc)
  moreover have "chan_safe s \<longrightarrow> panicked s2 = panicked s"
    using sends_panicked [OF a] sends_panicked [OF b] sends_chan_safe [OF a] by simp
  moreover have "queue_bounded s \<longrightarrow> queue_bounded s2"
    using sends_queue_bounded [OF a] sends_queue_bounded [OF b] by blast
  moreover have "fired (disconnectOnce (heap s r)) \<longrightarrow> fired (disconnectOnce (heap s2 r))" for r
    using sends_fired [OF a] sends_fired [OF b] by blast
  moreover have "c_closed (conns s k) \<longrightarrow> c_closed (conns s2 k)" for k
    using sends_conn [OF a] sends_conn [OF b] by blast
  ultimately show ?thesis
    unfolding sends_def using sends_static [OF a] sends_static [OF b] sends_stream [OF a]
      sends_stream [OF b] by simp
qed

lemma sends_fold:
  assumes "\<And>x s. x \<in> set xs \<Longrightarrow> sends s (f x s)"
  shows "sends s (fold f xs s)"
  using assms by (induction xs arbitrary: s) (auto intro: sends_trans)

lemma sends_scheduleDisconnect: "sends s (scheduleDisconnect se err s)"
proof (cases se)
  case None
  then show ?thesis by simp
next
  case (Some r)
  show ?thesis
  proof (cases rule: scheduleDisconnect_cases [of s r err])
    case 1
    with Some show ?thesis by simp
  next
    case 2
    then have "scheduled s (scheduleDisconnect se err s) [disconnect_event r err]"
      by (simp add: scheduled_def Some) blast
    with 2 show ?thesis
      by (simp add: Some sends_def core_eq_iff chan_safe_def queue_bounded_def)
  next
    case 3
    then show ?thesis
      by (simp add: Some sends_def core_eq_iff queue_bounded_def close_conn_def split: option.splits)
  qed
qed

lemma sends_pushTCP: "sends s (pushTCP se p s)"
proof (cases se)
  case None
  then show ?thesis by simp
next
  case (Some r)
  show ?thesis
  proof (cases rule: pushTCP_cases [of s r p])
    case (2 k)
    then have "\<not> chan_safe s" by (auto simp: chan_safe_def)
    with 2 Some show ?thesis by (simp add: sends_def queue_bounded_def)
  next
    case (3 k)
    with Some show ?thesis by (simp add: sends_def queue_bounded_def)
  next
    case (4 k)
    with Some show ?thesis by (simp add: sends_scheduleDisconnect)
  qed (simp add: Some)
qed

lemma sends_udpSendRaw: "sends s (udpSendRaw E a p s)"
  by (simp add: udpSendRaw_eq sends_def queue_bounded_def)

lemma sends_draw [simp]: "sends s (draw s)"
  by (simp add: sends_def queue_bounded_def)

lemma sends_draw2 [simp]: "sends s (draw (draw s))"
  by (rule sends_trans [OF sends_draw sends_draw])

lemma sends_upd_sess:
  assumes "core (f (heap s r)) = core (heap s r)"
    and "disconnectOnce (f (heap s r)) = disconnectOnce (heap s r)"
  shows "sends s (upd_sess r f s)"
  using assms by (simp add: sends_def queue_bounded_def)

lemmas sends_intros = sends_scheduleDisconnect sends_pushTCP sends_udpSendRaw sends_draw
  sends_upd_sess

section \<open>Configuration\<close>

lemma config_defaults_fields [simp]:
  "TickRate (config_defaults c) = (if TickRate c \<le> 0 then 50000000 else TickRate c)"
  "MaxFrameLen (config_defaults c) = (if MaxFrameLen c = 0 then 1048576 else MaxFrameLen c)"
  "SendQueueDepth (config_defaults c) = (if SendQueueDepth c \<le> 0 then 256 else SendQueueDepth c)"
  "EventQueueDepth (config_defaults c) = (if EventQueueDepth c \<le> 0 then 4096 else EventQueueDepth c)"
  "MaxUDPPayload (config_defaults c) = (if MaxUDPPayload c \<le> 0 then 1200 else MaxUDPPayload c)"
  "Authenticate (config_defaults c) = Authenticate c" "PingTimeout (config_defaults c) = PingTimeout c"
  by (simp_all add: config_defaults_def Let_def DefaultTickRate_def DefaultMaxFrameLen_def
      DefaultSendQueueDepth_def DefaultEventQueueDepth_def DefaultMaxUDPPayload_def
      time_Millisecond_def)

section \<open>Properties\<close>

text \<open>Values that are zero or negative are replaced by the documented defaults, the others kept.\<close>

lemma NewServer_defaults:
  "case NewServer c P rnd clk rng g of (E, s) \<Rightarrow>
    TickRate (cfg E) = (if TickRate c \<le> 0 then 50000000 else TickRate c) \<and>
    MaxFrameLen (cfg E) = (if MaxFrameLen c = 0 then 1048576 else MaxFrameLen c) \<and>
    SendQueueDepth (cfg E) = (if SendQueueDepth c \<le> 0 then 256 else SendQueueDepth c) \<and>
    EventQueueDepth (cfg E) = (if EventQueueDepth c \<le> 0 then 4096 else EventQueueDepth c) \<and>
    MaxUDPPayload (cfg E) = (if MaxUDPPayload c \<le> 0 then 1200 else MaxUDPPayload c) \<and>
    0 < TickRate (cfg E) \<and> MaxFrameLen (cfg E) \<noteq> 0 \<and> 0 < SendQueueDepth (cfg E) \<and>
    0 < MaxUDPPayload (cfg E) \<and> int (depth (events s)) = EventQueueDepth (cfg E) \<and>
    Authenticate (cfg E) = Authenticate c \<and> PingTimeout (cfg E) = PingTimeout c"
  by (auto simp: NewServer_def Let_def new_state_def newQueue_depth)

text \<open>
  The handler registries: after any sequence of registrations on a new server, a message
  is looked up by its full name and the last handler registered for that name is found, for
  client messages and for RPC requests alike; a name without registration finds nothing.
\<close>

lemma registrations_last_wins:
  fixes c P rnd clk rng g
  defines "E \<equiv> fst (NewServer c P rnd clk rng g)"
  shows "handlerRegistry_lookup P
      (handlers (fold (\<lambda>(p, h). HandleClient (Some p) (Some h)) ps E)) (Some m) =
        map_of (rev (map (\<lambda>(p, h). (proto_FullName P p, h)) ps)) (proto_FullName P m) \<and>
    rpcRegistry_lookup P
      (rpcHandlers (fold (\<lambda>(p, h). HandleRPC (Some p) (Some h)) qs E)) (Some m) =
        map_of (rev (map (\<lambda>(p, h). (proto_FullName P p, h)) qs)) (proto_FullName P m)"
proof -
  have client: "handlers (fold (\<lambda>(p, h). HandleClient (Some p) (Some h)) ps F) =
      fold (\<lambda>(p, h). handlerRegistry_register (pb F) (Some p) (Some h)) ps (handlers F) \<and>
    pb (fold (\<lambda>(p, h). HandleClient (Some p) (Some h)) ps F) = pb F" for F :: "('a, 'b) env"
    by (induction ps arbitrary: F) (auto simp: HandleClient_def)
  have rpc: "rpcHandlers (fold (\<lambda>(p, h). HandleRPC (Some p) (Some h)) qs F) =
      fold (\<lambda>(p, h). rpcRegistry_register (pb F) (Some p) (Some h)) qs (rpcHandlers F)"
      for F :: "('a, 'b) env"
    by (induction qs arbitrary: F) (auto simp: HandleRPC_def)
  have "pb E = P" "handlers E = handlerRegistry_zero" "rpcHandlers E = rpcRegistry_zero"
    by (simp_all add: E_def NewServer_def Let_def)
  then show ?thesis
    by (simp add: client rpc client_reg.reg_all_from_zero rpc_reg.reg_all_from_zero)
qed

text \<open>What cleaning up a session does to each part of the state.\<close>

lemma cleanupSession_parts:
  "let s' = cleanupSession E (Some r) err s in
    sessions s' = (if ID (heap s r) = 0 then sessions s else (sessions s)(ID (heap s r) := None)) \<and>
    udpSessions s' = (case session_udpAddr (heap s r) of None \<Rightarrow> udpSessions s
      | Some a \<Rightarrow> (udpSessions s)(a := None)) \<and>
    heap s' = (heap s)(r := (heap s r)\<lparr>sendTCP := None\<rparr>) \<and>
    events s' = events s \<and>
    (case tcp (heap s r) of None \<Rightarrow> conns s' = conns s | Some k \<Rightarrow> c_closed (conns s' k)) \<and>
    (case sendTCP (heap s r) of None \<Rightarrow> chans s' = chans s | Some k \<Rightarrow> is_closed (chans s' k)) \<and>
    panicked s' = (panicked s \<or> (case sendTCP (heap s r) of None \<Rightarrow> False | Some k \<Rightarrow> is_closed (chans s k))) \<and>
    calls s' = calls s @ (case OnDisconnect (cfg E) of None \<Rightarrow> [] | Some _ \<Rightarrow> [CallOnDisconnect r err])"
proof -
  note defs = cleanupSession_def Let_def invoke_eq close_chan_def close_conn_def upd_sess_def
  show ?thesis
  proof (cases "sendTCP (heap s r)")
    case None
    then have "(heap s r)\<lparr>sendTCP := None\<rparr> = heap s r" by (intro session.equality) simp_all
    then have "heap s = (heap s)(r := (heap s r)\<lparr>sendTCP := None\<rparr>)" by simp
    with None show ?thesis
      by (cases "session_udpAddr (heap s r)"; cases "tcp (heap s r)"; cases "OnDisconnect (cfg E)";
          cases "ID (heap s r) = 0") (simp_all add: defs)
  next
    case (Some k)
    then show ?thesis
      by (cases "session_udpAddr (heap s r)"; cases "tcp (heap s r)"; cases "OnDisconnect (cfg E)";
          cases "ID (heap s r) = 0"; cases "is_closed (chans s k)") (simp_all add: defs)
  qed
qed

lemma cleanupSession_simps:
  "sessions (cleanupSession E (Some r) err s) =
    (if ID (heap s r) = 0 then sessions s else (sessions s)(ID (heap s r) := None))"
  "heap (cleanupSession E (Some r) err s) = (heap s)(r := (heap s r)\<lparr>sendTCP := None\<rparr>)"
  "events (cleanupSession E (Some r) err s) = events s"
  "udpSessions (cleanupSession E (Some r) err s) =
    (case session_udpAddr (heap s r) of None \<Rightarrow> udpSessions s | Some a \<Rightarrow> (udpSessions s)(a := None))"
  "calls (cleanupSession E (Some r) err s) =
    calls s @ (case OnDisconnect (cfg E) of None \<Rightarrow> [] | Some _ \<Rightarrow> [CallOnDisconnect r err])"
  using cleanupSession_parts [of E r err s] unfolding Let_def by blast+

end

