(* ===== verification/Scenario.thy ===== *)
theory Scenario
  imports Server
begin

text \<open>
  A concrete instance of the model's parameters: a small message type with its codec, a
  configuration, and an environment. The properties that have hypotheses are exercised on it.
\<close>

section \<open>A message type and its codec\<close>

text \<open>
  A game message is a number, an envelope with one oneof around a message, or an empty
  message.
\<close>

datatype msg = NoMsg | Num byte | Envelope msg

fun msg_name :: "msg \<Rightarrow> string" where
  "msg_name NoMsg = ''demo.Empty''"
| "msg_name (Num _) = ''demo.Num''"
| "msg_name (Envelope _) = ''demo.Envelope''"

fun msg_oneofs :: "msg \<Rightarrow> msg oneof_field list" where
  "msg_oneofs (Envelope m) = [Unpopulated, MessageField m]"
| "msg_oneofs (Num _) = [ScalarField]"
| "msg_oneofs NoMsg = []"

fun msg_decode :: "bytes \<Rightarrow> goerr + msg" where
  "msg_decode [] = Inr NoMsg"
| "msg_decode [x] = Inr (Envelope (Num x))"
| "msg_decode (x # y # bs) = Inl (ErrText ''trailing bytes'')"

fun msg_encode :: "msg \<Rightarrow> goerr + bytes" where
  "msg_encode NoMsg = Inr []"
| "msg_encode (Num x) = Inr [x]"
| "msg_encode (Envelope m) = msg_encode m"

text \<open>Frames: a tag byte, then the fields.\<close>

fun decode_client :: "bytes \<Rightarrow> goerr + ClientFrame" where
  "decode_client (t # bs) =
     (if t = 1 then Inr \<lparr>client_Body = Some (ClientFrame_Login (Some \<lparr>login_credentials = bs\<rparr>))\<rparr>
      else if t = 2 \<and> bs \<noteq> [] then
        Inr \<lparr>client_Body = Some (ClientFrame_UdpHandshake (Some
          \<lparr>hs_player_id = ucast (hd bs),
           hs_session_token = map (\<lambda>b. char_of (unat b)) (tl bs)\<rparr>))\<rparr>
      else if t = 3 then Inr \<lparr>client_Body = Some (ClientFrame_Pong None)\<rparr>
      else if t = 4 then Inr \<lparr>client_Body = Some (ClientFrame_GamePayload bs)\<rparr>
      else if t = 5 \<and> bs \<noteq> [] then
        Inr \<lparr>client_Body = Some (ClientFrame_RpcRequest (Some
          \<lparr>req_correlation_id = ucast (hd bs), req_payload = tl bs\<rparr>))\<rparr>
      else Inl (ErrText ''unknown tag''))"
| "decode_client [] = Inr \<lparr>client_Body = None\<rparr>"

fun encode_server :: "ServerFrame \<Rightarrow> goerr + bytes" where
  "encode_server f =
     (case server_Body f of
        None \<Rightarrow> Inr []
      | Some (ServerFrame_LoginResponse m) \<Rightarrow>
          Inr ([1, if lr_ok m then 1 else 0] @ map (\<lambda>c. word_of_nat (of_char c)) (lr_session_token m))
      | Some (ServerFrame_UdpHandshakeAck m) \<Rightarrow> Inr [2, if ack_ok m then 1 else 0]
      | Some (ServerFrame_Ping m) \<Rightarrow> Inr [3]
      | Some (ServerFrame_GamePayload p) \<Rightarrow> Inr (4 # p)
      | Some (ServerFrame_RpcResponse m) \<Rightarrow>
          Inr ([5, ucast (resp_correlation_id m), if resp_ok m then 1 else 0] @ resp_payload m))"

definition demo_pb :: "msg proto_rt" where
  "demo_pb =
     \<lparr>proto_FullName = msg_name, proto_Oneofs = msg_oneofs, proto_Clone = (\<lambda>m. m),
      proto_Reset = (\<lambda>m. NoMsg), proto_Unmarshal = (\<lambda>b m. msg_decode b),
      proto_Marshal = msg_encode, Unmarshal_ClientFrame = decode_client,
      Marshal_ServerFrame = encode_server\<rparr>"

section \<open>A configuration and an environment\<close>

text \<open>
  The credentials name the player; the game state counts the callbacks.
\<close>

definition demo_auth :: "(msg, nat) AuthenticateFn" where
  "demo_auth m s =
     (game s, Returned (case m of Envelope (Num x) \<Rightarrow> Inr (ucast x) | _ \<Rightarrow> Inl (ErrText ''who?'')))"

definition demo_cfg :: "(msg, nat) config" where
  "demo_cfg = config_defaults
     \<lparr>TCPAddr = '':7777'', UDPAddr = '':7778'', UDPAdvertiseAddr = '''', TickRate = 0,
      Authenticate = Some demo_auth, LoginPrototype = Some NoMsg,
      ClientMessagePrototype = Some NoMsg, RPCRequestPrototype = Some NoMsg,
      OnAuth = None,
      OnConnect = Some (\<lambda>r s. (Suc (game s), Returned ())),
      OnDisconnect = Some (\<lambda>r err s. (Suc (game s), Panicked ''boom'')),
      MaxFrameLen = 0, SendQueueDepth = 2, EventQueueDepth = 0, MaxUDPPayload = 0,
      PingInterval = 0, PingTimeout = 0\<rparr>"

text \<open>A handler that answers by UDP, and an RPC handler that increments.\<close>

definition demo_handler :: "(msg, nat) ClientHandler" where
  "demo_handler tc r m s = (Suc (game s), [Cmd_BroadcastUDP m], Returned ())"

definition demo_rpc :: "(msg, nat) RPCHandler" where
  "demo_rpc tc r m s =
     (Suc (game s), [],
      case m of Num x \<Rightarrow> Returned (Some (Num (x + 1)), None) | _ \<Rightarrow> Panicked ''not a number'')"

definition demo :: "(msg, nat) env" where
  "demo = HandleRPC (Some (Num 0)) (Some demo_rpc) (HandleClient (Some (Num 0)) (Some demo_handler)
     (fst (NewServer demo_cfg demo_pb (\<lambda>k n. Some (replicate n 77)) (\<lambda>k. 0)
             (\<lambda>k m. sorted_list_of_set (dom m)) (0 :: nat))))"

lemma demo_ok: "env_ok demo"
  by (simp add: env_ok_def demo_def HandleRPC_def HandleClient_def NewServer_def Let_def range_order_def)

lemma demo_fields [simp]:
  "cfg demo = demo_cfg" "pb demo = demo_pb" "rand_Read demo k n = Some (replicate n 77)"
  "time_Now demo k = 0" "range_sessions demo k m = sorted_list_of_set (dom m)"
  "onTick demo = None"
  by (simp_all add: demo_def HandleRPC_def HandleClient_def NewServer_def Let_def demo_cfg_def
      config_defaults_def)

lemma demo_cfg_fields [simp]:
  "UDPAddr demo_cfg = '':7778''" "Authenticate demo_cfg = Some demo_auth"
  "LoginPrototype demo_cfg = Some NoMsg" "ClientMessagePrototype demo_cfg = Some NoMsg"
  "RPCRequestPrototype demo_cfg = Some NoMsg" "OnAuth demo_cfg = None"
  "MaxUDPPayload demo_cfg = 1200" "SendQueueDepth demo_cfg = 2" "EventQueueDepth demo_cfg = 4096"
  "UDPAdvertiseAddr demo_cfg = ''''" "MaxFrameLen demo_cfg = 1048576"
  "PingInterval demo_cfg = 0" "PingTimeout demo_cfg = 0"
  "OnConnect demo_cfg = Some (\<lambda>r s. (Suc (game s), Returned ()))"
  "OnDisconnect demo_cfg = Some (\<lambda>r err s. (Suc (game s), Panicked ''boom''))"
  by (simp_all add: demo_cfg_def config_defaults_def DefaultMaxUDPPayload_def
      DefaultEventQueueDepth_def DefaultMaxFrameLen_def)

text \<open>The same with room for one event in the queue.\<close>

definition tiny :: "(msg, nat) env" where
  "tiny = demo\<lparr>cfg := demo_cfg\<lparr>EventQueueDepth := 1\<rparr>\<rparr>"

lemma tiny_ok: "env_ok tiny"
  using demo_ok by (simp add: env_ok_def tiny_def)

lemma demo_pb_fields [simp]:
  "proto_FullName demo_pb = msg_name" "proto_Oneofs demo_pb = msg_oneofs"
  "proto_Clone demo_pb m = m" "proto_Reset demo_pb m = NoMsg"
  "proto_Unmarshal demo_pb b m = msg_decode b" "proto_Marshal demo_pb = msg_encode"
  "Unmarshal_ClientFrame demo_pb = decode_client" "Marshal_ServerFrame demo_pb = encode_server"
  by (simp_all add: demo_pb_def)

section \<open>States\<close>

definition demo_tc :: "int \<Rightarrow> tickctx" where
  "demo_tc t = \<lparr>tc_tick = 1, tc_now = t\<rparr>"

text \<open>One session at address 0 of the heap, in the given state of the handshake.\<close>

definition demo_session :: "sessionAuthState \<Rightarrow> pid \<Rightarrow> addr option \<Rightarrow> session" where
  "demo_session st p a = session_zero\<lparr>ID := p, authState := st, sessionToken := ''MMMM'',
     tcp := Some 0, session_udpAddr := a, sendTCP := Some 0\<rparr>"

definition demo_state :: "sessionAuthState \<Rightarrow> pid \<Rightarrow> addr option \<Rightarrow> nat server" where
  "demo_state st p a =
     (let s = new_state demo_cfg 0 in
      s\<lparr>heap := (heap s)(0 := demo_session st p a),
        chans := (chans s)(0 := \<lparr>buf = [], cap = 2, is_closed = False\<rparr>),
        next_ref := 1, udpConn := True, running := True,
        sessions := (if st = sessionPreLogin then Map.empty else [p \<mapsto> 0]),
        udpSessions := (case a of None \<Rightarrow> Map.empty | Some d \<Rightarrow> [d \<mapsto> 0])\<rparr>)"

lemma demo_state_fields [simp]:
  "heap (demo_state st p a) r = (if r = 0 then demo_session st p a else unallocated)"
  "chans (demo_state st p a) k =
    (if k = 0 then \<lparr>buf = [], cap = 2, is_closed = False\<rparr> else chan_zero)"
  "next_ref (demo_state st p a) = 1" "udpConn (demo_state st p a)"
  "sessions (demo_state st p a) = (if st = sessionPreLogin then Map.empty else [p \<mapsto> 0])"
  "udpSessions (demo_state st p a) = (case a of None \<Rightarrow> Map.empty | Some d \<Rightarrow> [d \<mapsto> 0])"
  "events (demo_state st p a) = \<lparr>ch = [], depth = 4096\<rparr>" "calls (demo_state st p a) = []"
  "udp_sent (demo_state st p a) = []" "\<not> panicked (demo_state st p a)" "game (demo_state st p a) = 0"
  "tickCount (demo_state st p a) = 0"
  by (simp_all add: demo_state_def new_state_def newQueue_def Let_def)

lemma demo_session_fields [simp]:
  "ID (demo_session st p a) = p" "authState (demo_session st p a) = st"
  "sessionToken (demo_session st p a) = ''MMMM''" "tcp (demo_session st p a) = Some 0"
  "session_udpAddr (demo_session st p a) = a" "sendTCP (demo_session st p a) = Some 0"
  "\<not> fired (disconnectOnce (demo_session st p a))" "lastSeenUnixNano (demo_session st p a) = 0"
  by (simp_all add: demo_session_def session_zero_def)

lemma unallocated_fields [simp]:
  "ID unallocated = 0" "authState unallocated = sessionPreLogin" "sessionToken unallocated = ''''"
  "tcp unallocated = None" "session_udpAddr unallocated = None" "sendTCP unallocated = None"
  "fired (disconnectOnce unallocated)"
  by (simp_all add: unallocated_def session_zero_def)

end

