(* ===== verification/TickCtx.thy ===== *)
theory TickCtx
  imports Scenario
begin

text \<open>
  \<open>tickctx.go\<close>: what handlers and the tick callback may do to the server.
  \<open>run_commands\<close> executes the commands that a handler issued, in order.
\<close>

definition marshalGameServerFrame :: "('m, 'g) env \<Rightarrow> 'm \<Rightarrow> goerr + bytes" where
  "marshalGameServerFrame E msg =
     (case proto_Marshal (pb E) msg of
        Inl err \<Rightarrow> Inl err
      | Inr inner \<Rightarrow>
          Marshal_ServerFrame (pb E) \<lparr>server_Body = Some (ServerFrame_GamePayload inner)\<rparr>)"

definition SendUDP :: "('m, 'g) env \<Rightarrow> pid \<Rightarrow> 'm \<Rightarrow> 'g server \<Rightarrow> 'g server" where
  "SendUDP E playerID msg s =
     (case sessions s playerID of
        None \<Rightarrow> s
      | Some r \<Rightarrow>
          if authState (heap s r) \<noteq> sessionReady \<or> session_udpAddr (heap s r) = None then s
          else (case marshalGameServerFrame E msg of
              Inl err \<Rightarrow> s
            | Inr data \<Rightarrow> udpSendRaw E (session_udpAddr (heap s r)) data s))"

definition SendTCP :: "('m, 'g) env \<Rightarrow> pid \<Rightarrow> 'm \<Rightarrow> 'g server \<Rightarrow> 'g server" where
  "SendTCP E playerID msg s =
     (case sessions s playerID of
        None \<Rightarrow> s
      | Some r \<Rightarrow>
          (case marshalGameServerFrame E msg of
              Inl err \<Rightarrow> s
            | Inr data \<Rightarrow> pushTCP (Some r) data s))"

text \<open>One reading of the map order, and the loop over it.\<close>

definition range_now :: "('m, 'g) env \<Rightarrow> 'g server \<Rightarrow> pid list" where
  "range_now E s = range_sessions E (draws s) (sessions s)"

definition BroadcastUDP :: "('m, 'g) env \<Rightarrow> 'm \<Rightarrow> 'g server \<Rightarrow> 'g server" where
  "BroadcastUDP E msg s =
     (case marshalGameServerFrame E msg of
        Inl err \<Rightarrow> s
      | Inr data \<Rightarrow>
          fold (\<lambda>p s. case sessions s p of
                   None \<Rightarrow> s
                 | Some r \<Rightarrow>
                     if authState (heap s r) = sessionReady \<and> session_udpAddr (heap s r) \<noteq> None
                     then udpSendRaw E (session_udpAddr (heap s r)) data s else s)
            (range_now E s) (draw s))"

definition BroadcastTCP :: "('m, 'g) env \<Rightarrow> 'm \<Rightarrow> 'g server \<Rightarrow> 'g server" where
  "BroadcastTCP E msg s =
     (case marshalGameServerFrame E msg of
        Inl err \<Rightarrow> s
      | Inr data \<Rightarrow>
          fold (\<lambda>p s. pushTCP (sessions s p) data s) (range_now E s) (draw s))"

definition ctx_Sessions :: "('m, 'g) env \<Rightarrow> 'g server \<Rightarrow> sref list" where
  "ctx_Sessions E s = List.map_filter (sessions s) (range_now E s)"

definition ctx_Session :: "pid \<Rightarrow> 'g server \<Rightarrow> sref option" where
  "ctx_Session playerID s = sessions s playerID"

definition ctx_Tick :: "tickctx \<Rightarrow> u64" where
  "ctx_Tick tc = tc_tick tc"

definition ctx_Now :: "tickctx \<Rightarrow> int" where
  "ctx_Now tc = tc_now tc"

definition ctx_Disconnect :: "pid \<Rightarrow> string \<Rightarrow> 'g server \<Rightarrow> 'g server" where
  "ctx_Disconnect playerID why s =
     (case sessions s playerID of
        None \<Rightarrow> s
      | Some r \<Rightarrow> scheduleDisconnect (Some r) (ErrText why) s)"

fun run_command :: "('m, 'g) env \<Rightarrow> 'm command \<Rightarrow> 'g server \<Rightarrow> 'g server" where
  "run_command E (Cmd_SendUDP p m) s = SendUDP E p m s"
| "run_command E (Cmd_SendTCP p m) s = SendTCP E p m s"
| "run_command E (Cmd_BroadcastUDP m) s = BroadcastUDP E m s"
| "run_command E (Cmd_BroadcastTCP m) s = BroadcastTCP E m s"
| "run_command E (Cmd_Disconnect p why) s = ctx_Disconnect p why s"

definition run_commands :: "('m, 'g) env \<Rightarrow> 'm command list \<Rightarrow> 'g server \<Rightarrow> 'g server" where
  "run_commands E cs s = fold (run_command E) cs s"

section \<open>Lemmas\<close>

lemma sends_SendUDP: "sends s (SendUDP E p m s)"
  by (auto simp: SendUDP_def intro: sends_udpSendRaw split: option.splits sum.splits)

lemma sends_SendTCP: "sends s (SendTCP E p m s)"
  by (auto simp: SendTCP_def intro: sends_pushTCP split: option.splits sum.splits)

lemma sends_BroadcastUDP: "sends s (BroadcastUDP E m s)"
  unfolding BroadcastUDP_def
  by (auto intro!: sends_trans [OF sends_draw sends_fold] sends_udpSendRaw
      split: option.splits sum.splits)

lemma sends_BroadcastTCP: "sends s (BroadcastTCP E m s)"
  unfolding BroadcastTCP_def
  by (auto intro!: sends_trans [OF sends_draw sends_fold] sends_pushTCP split: sum.splits)

lemma sends_ctx_Disconnect: "sends s (ctx_Disconnect p why s)"
  by (auto simp: ctx_Disconnect_def intro: sends_scheduleDisconnect split: option.splits)

lemma sends_run_command: "sends s (run_command E c s)"
  by (cases c) (simp_all add: sends_SendUDP sends_SendTCP sends_BroadcastUDP sends_BroadcastTCP
      sends_ctx_Disconnect)

lemma sends_run_commands: "sends s (run_commands E cs s)"
  unfolding run_commands_def by (rule sends_fold) (rule sends_run_command)

lemma range_now_order:
  "env_ok E \<Longrightarrow> finite (dom (sessions s)) \<Longrightarrow> range_order (sessions s) (range_now E s)"
  by (simp add: env_ok_def range_now_def)

text \<open>Who is paired: in the session table, ready, with an address.\<close>

definition paired :: "'g server \<Rightarrow> pid \<Rightarrow> addr option" where
  "paired s p = (case sessions s p of
      None \<Rightarrow> None
    | Some r \<Rightarrow> if authState (heap s r) = sessionReady then session_udpAddr (heap s r) else None)"

lemma paired_sends: "sends s s' \<Longrightarrow> paired s' p = paired s p"
  by (simp add: paired_def sends_static sends_core split: option.splits)

section \<open>Sending makes no callbacks\<close>

lemma calls_scheduleDisconnect [simp]: "calls (scheduleDisconnect se err s) = calls s"
  by (cases se) (auto simp: scheduleDisconnect_def Let_def split: prod.splits)

lemma calls_pushTCP [simp]: "calls (pushTCP se p s) = calls s"
  by (cases se) (auto simp: pushTCP_def Let_def split: option.splits)

lemma calls_udpSendRaw [simp]: "calls (udpSendRaw E a p s) = calls s"
  by (simp add: udpSendRaw_def split: option.splits)

lemma calls_run_command [simp]: "calls (run_command E c s) = calls s"
proof (cases c)
  case (Cmd_BroadcastUDP m)
  then show ?thesis
    by (auto simp: BroadcastUDP_def intro!: trans [OF fold_preserves [of _ calls]]
        split: option.splits sum.splits)
next
  case (Cmd_BroadcastTCP m)
  then show ?thesis
    by (auto simp: BroadcastTCP_def intro!: trans [OF fold_preserves [of _ calls]]
        split: sum.splits)
qed (auto simp: SendUDP_def SendTCP_def ctx_Disconnect_def split: option.splits sum.splits)

lemma calls_run_commands [simp]: "calls (run_commands E cs s) = calls s"
  unfolding run_commands_def by (rule fold_preserves) simp

end

