(* ===== verification/Handshake.thy ===== *)
theory Handshake
  imports TickCtx
begin

text \<open>
  \<open>handshake.go\<close>: login over TCP, pairing over UDP, and session tokens.
\<close>

section \<open>Session tokens\<close>

text \<open>\<open>base64.RawURLEncoding\<close>: six bits per character, no padding.\<close>

definition b64_alphabet :: string where
  "b64_alphabet = ''ABCDEFGHIJKLMNOPQRSTUVWXYZabcdefghijklmnopqrstuvwxyz0123456789-_''"

definition b64_char :: "nat \<Rightarrow> char" where
  "b64_char n = b64_alphabet ! (n mod 64)"

fun base64_RawURL :: "bytes \<Rightarrow> string" where
  "base64_RawURL [] = []"
| "base64_RawURL [a] =
     [b64_char (unat a div 4), b64_char (unat a mod 4 * 16)]"
| "base64_RawURL [a, b] =
     [b64_char (unat a div 4), b64_char (unat a mod 4 * 16 + unat b div 16),
      b64_char (unat b mod 16 * 4)]"
| "base64_RawURL (a # b # c # rest) =
     [b64_char (unat a div 4), b64_char (unat a mod 4 * 16 + unat b div 16),
      b64_char (unat b mod 16 * 4 + unat c div 64), b64_char (unat c mod 64)] @ base64_RawURL rest"

definition generateSessionToken :: "('m, 'g) env \<Rightarrow> 'g server \<Rightarrow> string \<times> 'g server" where
  "generateSessionToken E s =
     (case rand_Read E (draws s) 16 of
        Some b \<Rightarrow> (base64_RawURL b, draw s)
      | None \<Rightarrow>
          (''fallback-'' @ show_int (time_UnixNano (time_Now E (draws (draw s)))), draw (draw s)))"

section \<open>Login\<close>

text \<open>
  \<open>sendLoginResponse\<close>; the endpoint is the variadic argument, empty when omitted.
\<close>

definition sendLoginResponse ::
  "('m, 'g) env \<Rightarrow> sref \<Rightarrow> bool \<Rightarrow> string \<Rightarrow> u32 \<Rightarrow> string \<Rightarrow> string list \<Rightarrow> 'g server \<Rightarrow> 'g server" where
  "sendLoginResponse E r ok errMsg playerID token udpEndpoint s =
     (let endpoint = (case udpEndpoint of [] \<Rightarrow> '''' | e # _ \<Rightarrow> e);
          frame = \<lparr>server_Body = Some (ServerFrame_LoginResponse
             \<lparr>lr_ok = ok, lr_error_message = errMsg, lr_player_id = playerID,
              lr_session_token = token, lr_udp_endpoint = endpoint\<rparr>)\<rparr>
      in case Marshal_ServerFrame (pb E) frame of
           Inl err \<Rightarrow> s
         | Inr data \<Rightarrow> pushTCP (Some r) data s)"

definition nil_deref_text :: string where
  "nil_deref_text = ''runtime error: invalid memory address or nil pointer dereference''"

text \<open>
  \<open>callAuthenticate\<close>: a panic, calling a nil function included, becomes a rejection.
\<close>

definition callAuthenticate ::
  "('m, 'g) env \<Rightarrow> 'm \<Rightarrow> 'g server \<Rightarrow> (goerr + pid) \<times> 'g server" where
  "callAuthenticate E credentials s =
     (case Authenticate (cfg E) of
        None \<Rightarrow> (Inl (errorf_suffix (Sentinel ErrAuthRejected) ('': panic '' @ nil_deref_text)), s)
      | Some f \<Rightarrow>
          (case f credentials s of
             (g, Returned res) \<Rightarrow> (res, s\<lparr>game := g\<rparr>)
           | (g, Panicked v) \<Rightarrow>
               (Inl (errorf_suffix (Sentinel ErrAuthRejected) ('': panic '' @ v)), s\<lparr>game := g\<rparr>)))"

text \<open>The assignments of an accepted login.\<close>

definition register_session :: "sref \<Rightarrow> pid \<Rightarrow> string \<Rightarrow> 'g server \<Rightarrow> 'g server" where
  "register_session r playerID token s =
     (let s1 = upd_sess r (\<lambda>x. x\<lparr>ID := playerID, sessionToken := token,
                                 authState := sessionAwaitingUDP\<rparr>) s
      in s1\<lparr>sessions := (sessions s1)(playerID \<mapsto> r)\<rparr>)"

definition login_endpoint :: "('m, 'g) config \<Rightarrow> string" where
  "login_endpoint c = (if UDPAdvertiseAddr c = '''' then UDPAddr c else UDPAdvertiseAddr c)"

text \<open>
  \<open>remoteAddrString\<close>, which feeds log records only: the address of the peer, when the session
  has a connection.
\<close>

definition remoteAddrString :: "conn_ref option \<Rightarrow> 'g server \<Rightarrow> string" where
  "remoteAddrString c s = (case c of None \<Rightarrow> [] | Some k \<Rightarrow> c_remote (conns s k))"

text \<open>The tail of \<open>handleLogin\<close>, once the credentials are good and the id is free.\<close>

definition acceptLogin ::
  "('m, 'g) env \<Rightarrow> sref \<Rightarrow> 'm \<Rightarrow> pid \<Rightarrow> 'g server \<Rightarrow> 'g server" where
  "acceptLogin E r credentials playerID s =
     (let (token, s2) = generateSessionToken E s;
          s3 = register_session r playerID token s2;
          s4 = (case OnAuth (cfg E) of
                  None \<Rightarrow> s3
                | Some cb \<Rightarrow> invokeOnAuth cb r credentials s3)
      in sendLoginResponse E r True '''' playerID token [login_endpoint (cfg E)] s4)"

definition handleLogin ::
  "('m, 'g) env \<Rightarrow> tickctx \<Rightarrow> sref \<Rightarrow> Login option \<Rightarrow> 'g server \<Rightarrow> 'g server" where
  "handleLogin E tc r loginMsg s =
     (case (Authenticate (cfg E), LoginPrototype (cfg E)) of
        (Some _, Some proto) \<Rightarrow>
          (case proto_Unmarshal (pb E) (GetCredentials loginMsg)
                  (proto_Reset (pb E) (proto_Clone (pb E) proto)) of
             Inl err \<Rightarrow>
               scheduleDisconnect (Some r) (errorf_suffix (Sentinel ErrMalformedFrame) '': credentials'')
                 (sendLoginResponse E r False ''malformed credentials'' 0 '''' [] s)
           | Inr credentials \<Rightarrow>
               (case callAuthenticate E credentials s of
                  (Inl err, s1) \<Rightarrow>
                    scheduleDisconnect (Some r)
                      (errorf_suffix (Sentinel ErrAuthRejected) ('': '' @ error_text err))
                      (sendLoginResponse E r False (error_text err) 0 '''' [] s1)
                | (Inr playerID, s1) \<Rightarrow>
                    (if sessions s1 playerID \<noteq> None then
                       scheduleDisconnect (Some r)
                         (errorf_suffix (Sentinel ErrAuthRejected) '': duplicate'')
                         (sendLoginResponse E r False ''already connected'' 0 '''' [] s1)
                     else
                       acceptLogin E r credentials playerID s1)))
      | _ \<Rightarrow>
          scheduleDisconnect (Some r) (Sentinel ErrServerMisconfigured)
            (sendLoginResponse E r False ''server misconfigured'' 0 '''' [] s))"

section \<open>UDP pairing\<close>

definition sendUDPHandshakeAck ::
  "('m, 'g) env \<Rightarrow> addr \<Rightarrow> bool \<Rightarrow> u32 \<Rightarrow> 'g server \<Rightarrow> 'g server" where
  "sendUDPHandshakeAck E a ok playerID s =
     (case Marshal_ServerFrame (pb E) \<lparr>server_Body = Some (ServerFrame_UdpHandshakeAck
             \<lparr>ack_ok = ok, ack_player_id = playerID\<rparr>)\<rparr> of
        Inl err \<Rightarrow> s
      | Inr data \<Rightarrow> udpSendRaw E (Some a) data s)"

text \<open>The assignments of an accepted handshake.\<close>

definition pair_session :: "sref \<Rightarrow> addr \<Rightarrow> int \<Rightarrow> 'g server \<Rightarrow> 'g server" where
  "pair_session r a t s =
     (let s1 = upd_sess r (\<lambda>x. x\<lparr>session_udpAddr := Some a, authState := sessionReady,
                                 lastSeenUnixNano := time_UnixNano t\<rparr>) s
      in s1\<lparr>udpSessions := (udpSessions s1)(a \<mapsto> r)\<rparr>)"

definition handleUDPHandshake ::
  "('m, 'g) env \<Rightarrow> tickctx \<Rightarrow> addr \<Rightarrow> UdpHandshake option \<Rightarrow> 'g server \<Rightarrow> 'g server" where
  "handleUDPHandshake E tc a hs s =
     (case sessions s (UdpHandshake_GetPlayerId hs) of
        None \<Rightarrow> sendUDPHandshakeAck E a False (UdpHandshake_GetPlayerId hs) s
      | Some r \<Rightarrow>
          if sessionToken (heap s r) \<noteq> UdpHandshake_GetSessionToken hs then
            sendUDPHandshakeAck E a False (UdpHandshake_GetPlayerId hs) s
          else if authState (heap s r) \<noteq> sessionAwaitingUDP then s
          else
            (let s1 = pair_session r a (time_Now E (draws s)) (draw s);
                 s2 = sendUDPHandshakeAck E a True (ID (heap s1 r)) s1
             in case OnConnect (cfg E) of
                  None \<Rightarrow> s2
                | Some cb \<Rightarrow> invokeOnConnect cb r s2))"

section \<open>Lemmas\<close>

lemma sends_sendLoginResponse: "sends s (sendLoginResponse E r ok m p t ep s)"
  by (auto simp: sendLoginResponse_def Let_def intro: sends_pushTCP split: sum.splits)

lemma sends_ack: "sends s (sendUDPHandshakeAck E a ok p s)"
  by (auto simp: sendUDPHandshakeAck_def intro: sends_udpSendRaw split: sum.splits)

lemma sends_token: "generateSessionToken E s = (t, s') \<Longrightarrow> sends s s'"
  by (auto simp: generateSessionToken_def split: option.splits)

lemma sends_game [simp]: "sends s (s\<lparr>game := g\<rparr>)"
  by (simp add: sends_def queue_bounded_def)

lemma sends_callAuthenticate: "callAuthenticate E c s = (res, s') \<Longrightarrow> sends s s'"
  by (auto simp: callAuthenticate_def split: option.splits prod.splits outcome.splits)

text \<open>
  A login ends in one of two ways: rejected, with nothing but replies and a scheduled
  disconnect; or accepted, and then the table gets exactly one new entry.
\<close>

lemma sends_reject:
  "sends s s1 \<Longrightarrow> sends s (scheduleDisconnect se e (sendLoginResponse E r ok m p t ep s1))"
  by (rule sends_trans, assumption, rule sends_trans, rule sends_sendLoginResponse,
      rule sends_scheduleDisconnect)

lemma handleLogin_split:
  obtains (refuse) "sends s (handleLogin E tc r lm s)"
  | (admit) creds playerID s1 where "callAuthenticate E creds s = (Inr playerID, s1)"
      "sessions s1 playerID = None" "handleLogin E tc r lm s = acceptLogin E r creds playerID s1"
proof -
  have "sends s (handleLogin E tc r lm s) \<or>
    (\<exists>creds playerID s1. callAuthenticate E creds s = (Inr playerID, s1) \<and>
      sessions s1 playerID = None \<and> handleLogin E tc r lm s = acceptLogin E r creds playerID s1)"
    by (auto simp: handleLogin_def sends_reject
        dest: sends_callAuthenticate split: option.split sum.split prod.split)
  then show thesis using that by blast
qed

lemma acceptLogin_steps:
  obtains token s2 s4 where "generateSessionToken E s = (token, s2)" "sends s s2"
      "s4 = register_session r playerID token s2 \<or>
       (\<exists>g. s4 = record_call (CallOnAuth r) g (register_session r playerID token s2))"
      "sends s4 (acceptLogin E r creds playerID s)"
proof -
  obtain token s2 where tok: "generateSessionToken E s = (token, s2)" by fastforce
  let ?s3 = "register_session r playerID token s2"
  let ?s4 = "case OnAuth (cfg E) of None \<Rightarrow> ?s3 | Some cb \<Rightarrow> invokeOnAuth cb r creds ?s3"
  have "sends ?s4 (acceptLogin E r creds playerID s)"
    by (simp add: acceptLogin_def tok Let_def sends_sendLoginResponse)
  then show thesis
    using tok sends_token [OF tok] by (intro that [of token s2 ?s4])
      (auto simp: invoke_eq split: option.splits)
qed

lemma handleLogin_cases:
  obtains (rejected) "sends s (handleLogin E tc r lm s)"
  | (accepted) playerID token s1 s2 s4 where "sends s s2" "sessions s playerID = None"
      "s4 = register_session r playerID token s2 \<or>
       (\<exists>g. s4 = record_call (CallOnAuth r) g (register_session r playerID token s2))"
      "sends s4 (handleLogin E tc r lm s)" "generateSessionToken E s1 = (token, s2)"
proof (cases rule: handleLogin_split [of s E tc r lm])
  case refuse
  then show thesis by (rule rejected)
next
  case (admit creds playerID s1)
  note s1 = sends_callAuthenticate [OF admit(1)]
  obtain token s2 s4 where acc: "generateSessionToken E s1 = (token, s2)" "sends s1 s2"
      "s4 = register_session r playerID token s2 \<or>
       (\<exists>g. s4 = record_call (CallOnAuth r) g (register_session r playerID token s2))"
      "sends s4 (acceptLogin E r creds playerID s1)"
    by (rule acceptLogin_steps)
  show thesis
  proof (rule accepted)
    show "sends s s2" using s1 acc(2) by (rule sends_trans)
    show "sessions s playerID = None" using admit(2) s1 by (simp add: sends_static)
    show "sends s4 (handleLogin E tc r lm s)" using acc(4) admit(3) by simp
  qed (fact acc)+
qed

text \<open>A handshake likewise: rejected or ignored, or exactly one session is paired.\<close>

lemma handleUDPHandshake_cases:
  obtains (rejected) "sends s (handleUDPHandshake E tc a hs s)"
  | (accepted) r t s1 s2 where "sessions s (UdpHandshake_GetPlayerId hs) = Some r"
      "sessionToken (heap s r) = UdpHandshake_GetSessionToken hs"
      "authState (heap s r) = sessionAwaitingUDP"
      "s1 = pair_session r a t (draw s)" "sends s1 s2"
      "handleUDPHandshake E tc a hs s = s2 \<or>
       (\<exists>g. handleUDPHandshake E tc a hs s = record_call (CallOnConnect r) g s2)"
proof -
  let ?p = "UdpHandshake_GetPlayerId hs"
  show thesis
  proof (cases "\<exists>r. sessions s ?p = Some r \<and> sessionToken (heap s r) = UdpHandshake_GetSessionToken hs \<and>
      authState (heap s r) = sessionAwaitingUDP")
    case True
    then obtain r where r: "sessions s ?p = Some r"
      "sessionToken (heap s r) = UdpHandshake_GetSessionToken hs"
      "authState (heap s r) = sessionAwaitingUDP" by blast
    let ?s1 = "pair_session r a (time_Now E (draws s)) (draw s)"
    let ?s2 = "sendUDPHandshakeAck E a True (ID (heap ?s1 r)) ?s1"
    have "handleUDPHandshake E tc a hs s = ?s2 \<or>
       (\<exists>g. handleUDPHandshake E tc a hs s = record_call (CallOnConnect r) g ?s2)"
      using r by (auto simp: handleUDPHandshake_def Let_def invoke_eq split: option.splits)
    then show thesis
      using r by (intro accepted [of r ?s1 "time_Now E (draws s)" ?s2]) (auto simp: sends_ack)
  next
    case False
    then have "sends s (handleUDPHandshake E tc a hs s)"
      by (auto simp: handleUDPHandshake_def intro: sends_ack split: option.splits)
    then show thesis by (rule rejected)
  qed
qed

section \<open>Tokens\<close>

lemma b64_alphabet_distinct: "distinct b64_alphabet" "length b64_alphabet = 64"
  by (simp_all add: b64_alphabet_def)

lemma b64_char_inject: "m < 64 \<Longrightarrow> n < 64 \<Longrightarrow> b64_char m = b64_char n \<longleftrightarrow> m = n"
  using b64_alphabet_distinct by (simp add: b64_char_def nth_eq_iff_index_eq)

lemma byte_less: "unat (a :: byte) < 256"
  using unsigned_less [of a] by simp

lemma byte_parts:
  "unat (a :: byte) div 4 < 64" "unat a div 16 < 16" "unat a div 64 < 4"
  using byte_less [of a] by (simp_all add: less_mult_imp_div_less)

lemma b64_indices:
  fixes a b c :: byte
  shows "unat a mod 4 * 16 + unat b div 16 < 64" "unat b mod 16 * 4 + unat c div 64 < 64"
    "unat c mod 64 < 64" "unat a mod 4 * 16 < 64" "unat b mod 16 * 4 < 64"
proof -
  have "unat a mod 4 < 4" "unat b mod 16 < 16" by simp_all
  with byte_parts [of b] byte_parts [of c]
  show "unat a mod 4 * 16 + unat b div 16 < 64" "unat b mod 16 * 4 + unat c div 64 < 64"
    "unat a mod 4 * 16 < 64" "unat b mod 16 * 4 < 64" by linarith+
qed simp

lemma mix_inject:
  fixes p q k :: nat
  assumes "q < k" "q' < k" "p * k + q = p' * k + q'"
  shows "p = p' \<and> q = q'"
proof -
  have "(p * k + q) div k = p" "(p' * k + q') div k = p'"
    "(p * k + q) mod k = q" "(p' * k + q') mod k = q'"
    using assms(1,2) by simp_all
  with assms(3) show ?thesis by metis
qed

lemma byte_eqI:
  fixes a b :: byte
  shows "unat a div k = unat b div k \<Longrightarrow> unat a mod k = unat b mod k \<Longrightarrow> a = b"
  by (metis div_mult_mod_eq word_unat_eq_iff)

text \<open>Four characters determine three bytes, three determine two, two determine one.\<close>

lemma b64_pair:
  fixes a b x y :: byte
  assumes "unat a div 4 = unat x div 4"
    and "unat a mod 4 * 16 + unat b div 16 = unat x mod 4 * 16 + unat y div 16"
  shows "a = x \<and> unat b div 16 = unat y div 16"
  using mix_inject [OF byte_parts(2) byte_parts(2) assms(2)] byte_eqI [OF assms(1)] by blast

lemma b64_last:
  fixes b c y z :: byte
  assumes "unat b div 16 = unat y div 16"
    and "unat b mod 16 * 4 + unat c div 64 = unat y mod 16 * 4 + unat z div 64"
  shows "b = y \<and> unat c div 64 = unat z div 64"
  using mix_inject [OF byte_parts(3) byte_parts(3) assms(2)] byte_eqI [OF assms(1)] by blast

lemma base64_inject:
  "length a = length b \<Longrightarrow> base64_RawURL a = base64_RawURL b \<Longrightarrow> a = b"
proof (induction a arbitrary: b rule: base64_RawURL.induct)
  case 1
  then show ?case by simp
next
  case (2 x)
  then have "length b = Suc 0" by simp
  then obtain y where b: "b = [y]" by (auto simp: length_Suc_conv)
  have eq: "unat x div 4 = unat y div 4" "unat x mod 4 * 16 = unat y mod 4 * 16"
    using 2(2) by (simp_all add: b b64_char_inject byte_parts b64_indices)
  then have "unat x mod 4 = unat y mod 4" by simp
  with eq(1) show ?case by (simp add: b byte_eqI)
next
  case (3 x x')
  then have "length b = Suc (Suc 0)" by simp
  then obtain y y' where b: "b = [y, y']" by (auto simp: length_Suc_conv)
  have eq: "unat x div 4 = unat y div 4"
    "unat x mod 4 * 16 + unat x' div 16 = unat y mod 4 * 16 + unat y' div 16"
    "unat x' mod 16 * 4 = unat y' mod 16 * 4"
    using 3(2) by (simp_all add: b b64_char_inject byte_parts b64_indices)
  from b64_pair [OF eq(1,2)] have "x = y" "unat x' div 16 = unat y' div 16" by simp_all
  moreover have "unat x' mod 16 = unat y' mod 16" using eq(3) by simp
  ultimately show ?case by (simp add: b byte_eqI)
next
  case (4 x x' x'' xs)
  then have "length b = Suc (Suc (Suc (length xs)))" by simp
  then obtain y y' y'' ys where b: "b = y # y' # y'' # ys" by (auto simp: length_Suc_conv)
  have eq: "unat x div 4 = unat y div 4"
    "unat x mod 4 * 16 + unat x' div 16 = unat y mod 4 * 16 + unat y' div 16"
    "unat x' mod 16 * 4 + unat x'' div 64 = unat y' mod 16 * 4 + unat y'' div 64"
    "unat x'' mod 64 = unat y'' mod 64" and rest: "base64_RawURL xs = base64_RawURL ys"
    using 4(3) by (simp_all add: b b64_char_inject byte_parts b64_indices)
  from b64_pair [OF eq(1,2)] have "x = y" "unat x' div 16 = unat y' div 16" by simp_all
  moreover from b64_last [OF this(2) eq(3)] have "x' = y'" "unat x'' div 64 = unat y'' div 64"
    by simp_all
  moreover have "x'' = y''" using byte_eqI [OF \<open>unat x'' div 64 = unat y'' div 64\<close> eq(4)] .
  moreover have "xs = ys" using 4 rest by (simp add: b)
  ultimately show ?case by (simp add: b)
qed

lemma base64_length: "length (base64_RawURL b) = (4 * length b + 2) div 3"
  by (induction b rule: base64_RawURL.induct) simp_all

lemma base64_alphabet: "set (base64_RawURL b) \<subseteq> set b64_alphabet"
proof -
  have "b64_char n \<in> set b64_alphabet" for n
    unfolding b64_char_def by (rule nth_mem) (simp add: b64_alphabet_distinct)
  then show ?thesis by (induction b rule: base64_RawURL.induct) simp_all
qed

section \<open>What a login is answered\<close>

text \<open>
  The verdict on a login: the error text sent to the client and the disconnect reason, or the
  credentials and the player id; and the state after \<open>Authenticate\<close>.
\<close>

definition login_verdict ::
  "('m, 'g) env \<Rightarrow> Login option \<Rightarrow> 'g server \<Rightarrow> (string \<times> goerr + 'm \<times> pid) \<times> 'g server" where
  "login_verdict E lm s =
     (case (Authenticate (cfg E), LoginPrototype (cfg E)) of
        (Some _, Some proto) \<Rightarrow>
          (case proto_Unmarshal (pb E) (GetCredentials lm) (proto_Reset (pb E) (proto_Clone (pb E) proto)) of
             Inl _ \<Rightarrow> (Inl (''malformed credentials'',
                        errorf_suffix (Sentinel ErrMalformedFrame) '': credentials''), s)
           | Inr creds \<Rightarrow>
               (case callAuthenticate E creds s of
                  (Inl err, s1) \<Rightarrow> (Inl (error_text err,
                     errorf_suffix (Sentinel ErrAuthRejected) ('': '' @ error_text err)), s1)
                | (Inr p, s1) \<Rightarrow>
                    (if sessions s1 p \<noteq> None
                     then Inl (''already connected'', errorf_suffix (Sentinel ErrAuthRejected) '': duplicate'')
                     else Inr (creds, p), s1)))
      | _ \<Rightarrow> (Inl (''server misconfigured'', Sentinel ErrServerMisconfigured), s))"

lemma handleLogin_verdict:
  "handleLogin E tc r lm s =
    (case login_verdict E lm s of
       (Inl (text, err), s1) \<Rightarrow>
         scheduleDisconnect (Some r) err (sendLoginResponse E r False text 0 '''' [] s1)
     | (Inr (creds, p), s1) \<Rightarrow> acceptLogin E r creds p s1)"
  by (simp add: handleLogin_def login_verdict_def split: option.split sum.split prod.split)

lemma login_verdict_state: "login_verdict E lm s = (v, s1) \<Longrightarrow> \<exists>g. s1 = s\<lparr>game := g\<rparr>"
  by (auto simp: login_verdict_def callAuthenticate_def
      intro: exI [of _ "game s"] split: option.splits sum.splits prod.splits outcome.splits)

lemma login_verdict_free: "login_verdict E lm s = (Inr (creds, p), s1) \<Longrightarrow> sessions s1 p = None"
  by (auto simp: login_verdict_def split: option.splits sum.splits prod.splits if_splits)

definition login_reply :: "bool \<Rightarrow> string \<Rightarrow> pid \<Rightarrow> string \<Rightarrow> string \<Rightarrow> ServerFrame" where
  "login_reply ok text p token endpoint =
     \<lparr>server_Body = Some (ServerFrame_LoginResponse
        \<lparr>lr_ok = ok, lr_error_message = text, lr_player_id = p, lr_session_token = token,
         lr_udp_endpoint = endpoint\<rparr>)\<rparr>"

lemma sendLoginResponse_queued:
  "can_queue s r k \<Longrightarrow>
   Marshal_ServerFrame (pb E) (login_reply ok text p token (case ep of [] \<Rightarrow> '''' | e # _ \<Rightarrow> e)) = Inr data \<Longrightarrow>
   sendLoginResponse E r ok text p token ep s =
     s\<lparr>chans := (chans s)(k := (chans s k)\<lparr>buf := buf (chans s k) @ [data]\<rparr>)\<rparr>"
  by (simp add: sendLoginResponse_def login_reply_def Let_def pushTCP_queued)

text \<open>
  What an accepted login does to the server: the tables and the session as registered, then the
  callback, which touches only the game state and the record of calls, then the response.
\<close>

lemma accepted_effect:
  assumes v: "login_verdict E lm s = (Inr (creds, p), s1)" and room: "can_queue s r k"
    and token: "token = fst (generateSessionToken E s1)"
    and data: "Marshal_ServerFrame (pb E) (login_reply True '''' p token (login_endpoint (cfg E))) = Inr data"
  obtains s4 where "handleLogin E tc r lm s =
      s4\<lparr>chans := (chans s)(k := (chans s k)\<lparr>buf := buf (chans s k) @ [data]\<rparr>)\<rparr>"
    "sessions s4 = (sessions s)(p \<mapsto> r)" "udpSessions s4 = udpSessions s" "events s4 = events s"
    "heap s4 = (heap s)(r := (heap s r)\<lparr>ID := p, sessionToken := token, authState := sessionAwaitingUDP\<rparr>)"
    "calls s4 = calls s @ (case OnAuth (cfg E) of None \<Rightarrow> [] | Some _ \<Rightarrow> [CallOnAuth r])"
    "conns s4 = conns s" "udpConn s4 = udpConn s" "next_ref s4 = next_ref s"
proof -
  obtain g where s1: "s1 = s\<lparr>game := g\<rparr>" using login_verdict_state [OF v] by blast
  obtain s2 where tok: "generateSessionToken E s1 = (token, s2)"
    using token by (metis prod.collapse)
  then have s2: "s2 = draw s1 \<or> s2 = draw (draw s1)"
    by (auto simp: generateSessionToken_def split: option.splits)
  let ?s3 = "register_session r p token s2"
  let ?s4 = "case OnAuth (cfg E) of None \<Rightarrow> ?s3 | Some cb \<Rightarrow> invokeOnAuth cb r creds ?s3"
  have fields: "sessions ?s4 = (sessions s)(p \<mapsto> r)" "udpSessions ?s4 = udpSessions s"
    "events ?s4 = events s" "chans ?s4 = chans s" "conns ?s4 = conns s" "udpConn ?s4 = udpConn s"
    "next_ref ?s4 = next_ref s"
    "heap ?s4 = (heap s)(r := (heap s r)\<lparr>ID := p, sessionToken := token, authState := sessionAwaitingUDP\<rparr>)"
    "calls ?s4 = calls s @ (case OnAuth (cfg E) of None \<Rightarrow> [] | Some _ \<Rightarrow> [CallOnAuth r])"
    using s2 by (auto simp: s1 register_session_def upd_sess_def invoke_eq record_call_def Let_def
        split: option.split)
  have "can_queue ?s4 r k" using room by (simp add: can_queue_def fields)
  from sendLoginResponse_queued [OF this, of E True "''''" p token "[login_endpoint (cfg E)]"]
  have "handleLogin E tc r lm s =
      ?s4\<lparr>chans := (chans s)(k := (chans s k)\<lparr>buf := buf (chans s k) @ [data]\<rparr>)\<rparr>"
    using v tok data by (simp add: handleLogin_verdict acceptLogin_def Let_def fields)
  with fields show thesis by (intro that [of ?s4])
qed

section \<open>Properties\<close>

text \<open>
  C40 Session tokens: when the random source delivers, a token is 22 characters of the URL-safe
  alphabet for 16 bytes, and two tokens are equal exactly when the random bytes were.
\<close>

theorem session_tokens:
  assumes "rand_Read E (draws s) 16 = Some b" "rand_Read E (draws s') 16 = Some b'"
    and "length b = 16" "length b' = 16"
  shows "length (fst (generateSessionToken E s)) = 22 \<and>
    set (fst (generateSessionToken E s)) \<subseteq> set b64_alphabet \<and>
    (fst (generateSessionToken E s) = fst (generateSessionToken E s') \<longleftrightarrow> b = b')"
  using assms base64_inject [of b b'] base64_alphabet [of b]
  by (auto simp: generateSessionToken_def base64_length)

lemma session_tokens_witness:
  "length (fst (generateSessionToken demo (demo_state sessionPreLogin 0 None))) = 22"
  using session_tokens [of demo "demo_state sessionPreLogin 0 None" "replicate 16 77"
      "demo_state sessionPreLogin 0 None" "replicate 16 77"] by simp

text \<open>
  C17 A rejected login: the client is sent one \<open>LoginResponse\<close> with \<open>ok\<close> false, the
  verdict's text, player id 0 and no token, and the session's disconnect is queued with the
  verdict's reason; no table and no field of any session but the one-shot flag changes.
  (The session has room in its outbound queue and no disconnect yet, and the event queue has
  room.)
\<close>

theorem rejected_login:
  assumes "login_verdict E lm s = (Inl (text, err), s1)" "can_queue s r k"
    and "Marshal_ServerFrame (pb E) (login_reply False text 0 '''' '''') = Inr data"
    and "\<not> fired (disconnectOnce (heap s r))" "length (ch (events s)) < depth (events s)"
  shows "let s' = handleLogin E tc r lm s in
    sessions s' = sessions s \<and> udpSessions s' = udpSessions s \<and>
    heap s' = (heap s)(r := mark_fired (heap s r)) \<and>
    buf (chans s' k) = buf (chans s k) @ [data] \<and>
    ch (events s') = ch (events s) @ [disconnect_event r err] \<and> calls s' = calls s"
proof -
  obtain g where s1: "s1 = s\<lparr>game := g\<rparr>" using login_verdict_state [OF assms(1)] by blast
  then have room: "can_queue s1 r k" using assms(2) by (simp add: can_queue_def)
  let ?s2 = "sendLoginResponse E r False text 0 '''' [] s1"
  have s2: "?s2 = s1\<lparr>chans := (chans s1)(k := (chans s1 k)\<lparr>buf := buf (chans s1 k) @ [data]\<rparr>)\<rparr>"
    using sendLoginResponse_queued [OF room, of E False "text" 0 "''''" "[]" data] assms(3) by simp
  have "handleLogin E tc r lm s = scheduleDisconnect (Some r) err ?s2"
    by (simp add: handleLogin_verdict assms(1))
  moreover have "scheduleDisconnect (Some r) err ?s2 = upd_sess r mark_fired ?s2
      \<lparr>events := (events ?s2)\<lparr>ch := ch (events ?s2) @ [disconnect_event r err]\<rparr>\<rparr>"
    using assms(4,5) unfolding s2 by (intro scheduleDisconnect_queued) (simp_all add: s1)
  ultimately show ?thesis unfolding s2 by (simp add: s1 Let_def upd_sess_def)
qed

lemma demo_can_queue: "can_queue (demo_state st p a) 0 0"
  by (simp add: can_queue_def)

lemma rejected_login_witness:
  "buf (chans (handleLogin demo (demo_tc 0) 0 (Some \<lparr>login_credentials = []\<rparr>)
     (demo_state sessionPreLogin 0 None)) 0) = [[1, 0]]"
proof -
  let ?s = "demo_state sessionPreLogin 0 None"
  have v: "login_verdict demo (Some \<lparr>login_credentials = []\<rparr>) ?s =
      (Inl (''who?'', errorf_suffix (Sentinel ErrAuthRejected) '': who?''), ?s)"
    by (simp add: login_verdict_def callAuthenticate_def demo_auth_def GetCredentials_def)
  have m: "Marshal_ServerFrame (pb demo) (login_reply False ''who?'' 0 '''' '''') = Inr [1, 0]"
    by (simp add: login_reply_def)
  from rejected_login [OF v demo_can_queue m, of "demo_tc 0"] show ?thesis by (simp add: Let_def)
qed

text \<open>
  C16 An accepted login: the player id gets the session as its entry in the session table, the
  session gets the id, a fresh token and the state "awaiting UDP", \<open>OnAuth\<close> is called once when
  it is configured, and the client is sent one \<open>LoginResponse\<close> with \<open>ok\<close> true, that id, that
  very token and the configured UDP endpoint. No disconnect is scheduled and no other session
  changes.
\<close>

theorem accepted_login:
  assumes "login_verdict E lm s = (Inr (creds, p), s1)" "can_queue s r k"
    and "token = fst (generateSessionToken E s1)"
    and "Marshal_ServerFrame (pb E) (login_reply True '''' p token (login_endpoint (cfg E))) = Inr data"
  shows "let s' = handleLogin E tc r lm s in
    sessions s p = None \<and> sessions s' = (sessions s)(p \<mapsto> r) \<and>
    heap s' = (heap s)(r := (heap s r)\<lparr>ID := p, sessionToken := token,
                                      authState := sessionAwaitingUDP\<rparr>) \<and>
    buf (chans s' k) = buf (chans s k) @ [data] \<and> events s' = events s \<and>
    calls s' = calls s @ (case OnAuth (cfg E) of None \<Rightarrow> [] | Some _ \<Rightarrow> [CallOnAuth r]) \<and>
    udpSessions s' = udpSessions s"
proof -
  obtain s4 where "handleLogin E tc r lm s =
      s4\<lparr>chans := (chans s)(k := (chans s k)\<lparr>buf := buf (chans s k) @ [data]\<rparr>)\<rparr>"
    "sessions s4 = (sessions s)(p \<mapsto> r)" "udpSessions s4 = udpSessions s" "events s4 = events s"
    "heap s4 = (heap s)(r := (heap s r)\<lparr>ID := p, sessionToken := token, authState := sessionAwaitingUDP\<rparr>)"
    "calls s4 = calls s @ (case OnAuth (cfg E) of None \<Rightarrow> [] | Some _ \<Rightarrow> [CallOnAuth r])"
    using assms by (rule accepted_effect)
  moreover have "sessions s p = None"
    using login_verdict_free [OF assms(1)] login_verdict_state [OF assms(1)] by auto
  ultimately show ?thesis by simp
qed

lemma accepted_login_witness:
  "sessions (handleLogin demo (demo_tc 0) 0 (Some \<lparr>login_credentials = [9]\<rparr>)
     (demo_state sessionPreLogin 0 None)) = [9 \<mapsto> 0]"
proof -
  let ?s = "demo_state sessionPreLogin 0 None"
  have v: "login_verdict demo (Some \<lparr>login_credentials = [9]\<rparr>) ?s = (Inr (Envelope (Num 9), 9), ?s)"
    by (simp add: login_verdict_def callAuthenticate_def demo_auth_def GetCredentials_def)
  have "\<exists>d. Marshal_ServerFrame (pb demo) (login_reply True '''' 9
      (fst (generateSessionToken demo ?s)) (login_endpoint (cfg demo))) = Inr d"
    by (simp add: login_reply_def)
  then obtain d where d: "Marshal_ServerFrame (pb demo) (login_reply True '''' 9
      (fst (generateSessionToken demo ?s)) (login_endpoint (cfg demo))) = Inr d" by blast
  from accepted_login [OF v demo_can_queue refl d, of "demo_tc 0"] show ?thesis
    by (simp add: Let_def)
qed

end

