(* ===== verification/Ping.thy ===== *)
theory Ping
  imports Frame TickCtx
begin

text \<open>
  \<open>ping.go\<close>: the keepalive. Once per tick, sessions that were silent for longer than the
  timeout are scheduled for disconnect; once per interval the others are pinged.
\<close>

definition DefaultPingInterval :: int where
  "DefaultPingInterval = 5 * time_Second"

definition DefaultPingTimeout :: int where
  "DefaultPingTimeout = 30 * time_Second"

definition handlePong :: "tickctx \<Rightarrow> sref \<Rightarrow> Pong option \<Rightarrow> 'g server \<Rightarrow> 'g server" where
  "handlePong tc r _ s = upd_sess r (\<lambda>x. x\<lparr>lastSeenUnixNano := time_UnixNano (tc_now tc)\<rparr>) s"

text \<open>
  The nonce is read from the random source; when that fails, from the clock. Each reading
  is a \<open>draw\<close>.
\<close>

definition ping_nonce_bytes :: "('m, 'g) env \<Rightarrow> 'g server \<Rightarrow> bytes \<times> 'g server" where
  "ping_nonce_bytes E s =
     (case rand_Read E (draws s) 8 of
        Some b \<Rightarrow> (b, draw s)
      | None \<Rightarrow>
          (be_PutUint64 (word_of_int (time_UnixNano (time_Now E (draws (draw s))))), draw (draw s)))"

definition sendPing :: "('m, 'g) env \<Rightarrow> sref \<Rightarrow> 'g server \<Rightarrow> 'g server" where
  "sendPing E r s =
     (let (nonceBytes, s1) = ping_nonce_bytes E s;
          nonce = be_Uint64 nonceBytes;
          s2 = upd_sess r (\<lambda>x. x\<lparr>lastPingNonce := nonce\<rparr>) s1
      in case Marshal_ServerFrame (pb E) \<lparr>server_Body = Some (ServerFrame_Ping \<lparr>ping_nonce = nonce\<rparr>)\<rparr> of
           Inl err \<Rightarrow> s2
         | Inr data \<Rightarrow> udpSendRaw E (session_udpAddr (heap s2 r)) data s2)"

text \<open>The body of the loop over the session table.\<close>

definition ping_session :: "('m, 'g) env \<Rightarrow> bool \<Rightarrow> int \<Rightarrow> pid \<Rightarrow> 'g server \<Rightarrow> 'g server" where
  "ping_session E sendPings timeoutNanos p s =
     (case sessions s p of
        None \<Rightarrow> s
      | Some r \<Rightarrow>
          if authState (heap s r) \<noteq> sessionReady then s
          else if session_udpAddr (heap s r) = None then s
          else if lastSeenUnixNano (heap s r) < timeoutNanos then
            scheduleDisconnect (Some r) (Sentinel ErrPingTimeout) s
          else if sendPings then sendPing E r s
          else s)"

definition ping_interval :: "('m, 'g) config \<Rightarrow> int" where
  "ping_interval c = (if PingInterval c \<le> 0 then DefaultPingInterval else PingInterval c)"

definition ping_timeout :: "('m, 'g) config \<Rightarrow> int" where
  "ping_timeout c = (if PingTimeout c \<le> 0 then DefaultPingTimeout else PingTimeout c)"

definition runPingTick :: "('m, 'g) env \<Rightarrow> tickctx \<Rightarrow> 'g server \<Rightarrow> 'g server" where
  "runPingTick E tc s =
     (let sendPings = (time_Sub (tc_now tc) (lastPingBatchAt s) \<ge> ping_interval (cfg E));
          s1 = (if sendPings then s\<lparr>lastPingBatchAt := tc_now tc\<rparr> else s);
          timeoutNanos = time_UnixNano (time_Add (tc_now tc) (- ping_timeout (cfg E)))
      in fold (ping_session E sendPings timeoutNanos) (range_now E s1) (draw s1))"

section \<open>Lemmas\<close>

lemma sends_handlePong: "sends s (handlePong tc r p s)"
  unfolding handlePong_def by (rule sends_upd_sess) (simp_all add: core_def)

lemma sends_ping_nonce: "sends s (snd (ping_nonce_bytes E s))"
  by (simp add: ping_nonce_bytes_def split: option.splits)

lemma sends_sendPing: "sends s (sendPing E r s)"
proof -
  obtain b s1 where b: "ping_nonce_bytes E s = (b, s1)" by fastforce
  let ?s2 = "upd_sess r (\<lambda>x. x\<lparr>lastPingNonce := be_Uint64 b\<rparr>) s1"
  have "sends s s1" using sends_ping_nonce [of s E] b by simp
  also have "sends s1 ?s2" by (rule sends_upd_sess) (simp_all add: core_def)
  finally have "sends s ?s2" .
  then show ?thesis
    by (auto simp: sendPing_def Let_def b intro: sends_trans sends_udpSendRaw split: sum.splits)
qed

lemma sends_ping_session: "sends s (ping_session E b t p s)"
  by (auto simp: ping_session_def intro: sends_scheduleDisconnect sends_sendPing split: option.splits)

lemma sends_runPingTick: "sends s (runPingTick E tc s)"
proof -
  let ?s1 = "if time_Sub (tc_now tc) (lastPingBatchAt s) \<ge> ping_interval (cfg E)
    then s\<lparr>lastPingBatchAt := tc_now tc\<rparr> else s"
  have "sends s ?s1" by (simp add: sends_def queue_bounded_def)
  also have "sends ?s1 (draw ?s1)" by simp
  finally show ?thesis
    unfolding runPingTick_def Let_def
    by (rule sends_trans) (rule sends_fold, rule sends_ping_session)
qed

section \<open>Who times out and who is pinged\<close>

definition ping_deadline :: "('m, 'g) env \<Rightarrow> tickctx \<Rightarrow> int" where
  "ping_deadline E tc = time_UnixNano (time_Add (tc_now tc) (- ping_timeout (cfg E)))"

definition pings_due :: "('m, 'g) env \<Rightarrow> tickctx \<Rightarrow> 'g server \<Rightarrow> bool" where
  "pings_due E tc s \<longleftrightarrow> time_Sub (tc_now tc) (lastPingBatchAt s) \<ge> ping_interval (cfg E)"

definition silent :: "int \<Rightarrow> 'g server \<Rightarrow> pid \<Rightarrow> bool" where
  "silent dl s p \<longleftrightarrow>
     (case sessions s p of None \<Rightarrow> False | Some r \<Rightarrow> lastSeenUnixNano (heap s r) < dl)"

definition expired :: "int \<Rightarrow> 'g server \<Rightarrow> pid list \<Rightarrow> sref \<Rightarrow> bool" where
  "expired dl s ps r \<longleftrightarrow>
     (\<exists>p \<in> set ps. sessions s p = Some r \<and> paired s p \<noteq> None \<and> silent dl s p)"

lemma runPingTick_loop:
  "runPingTick E tc s =
    (let s1 = (if pings_due E tc s then s\<lparr>lastPingBatchAt := tc_now tc\<rparr> else s) in
     fold (ping_session E (pings_due E tc s) (ping_deadline E tc)) (range_now E s1) (draw s1))"
  by (simp add: runPingTick_def pings_due_def ping_deadline_def Let_def)

lemma sendPing_static:
  "sessions (sendPing E r s) = sessions s"
  "lastSeenUnixNano (heap (sendPing E r s) q) = lastSeenUnixNano (heap s q)"
  "fired (disconnectOnce (heap (sendPing E r s) q)) = fired (disconnectOnce (heap s q))"
  by (auto simp: sendPing_def ping_nonce_bytes_def udpSendRaw_def Let_def
      split: option.splits sum.splits)

lemma scheduleDisconnect_static:
  "lastSeenUnixNano (heap (scheduleDisconnect se err s) q) = lastSeenUnixNano (heap s q)"
  "fired (disconnectOnce (heap (scheduleDisconnect se err s) q)) \<longleftrightarrow>
     fired (disconnectOnce (heap s q)) \<or> se = Some q"
  "udp_sent (scheduleDisconnect se err s) = udp_sent s"
  by (cases se; auto simp: scheduleDisconnect_def once_Do_def Let_def split: prod.splits)+

lemma ping_session_effect:
  "lastSeenUnixNano (heap (ping_session E b dl p s) q) = lastSeenUnixNano (heap s q)"
  "fired (disconnectOnce (heap (ping_session E b dl p s) q)) \<longleftrightarrow>
     fired (disconnectOnce (heap s q)) \<or> expired dl s [p] q"
  by (auto simp: ping_session_def sendPing_static scheduleDisconnect_static expired_def paired_def
      silent_def split: option.splits)

lemma ping_session_static:
  "paired (ping_session E b dl p s) = paired s" "silent dl' (ping_session E b dl p s) = silent dl' s"
  "expired dl' (ping_session E b dl p s) = expired dl' s"
proof -
  note st = sends_ping_session [of s E b dl p]
  show eq: "paired (ping_session E b dl p s) = paired s" "silent dl' (ping_session E b dl p s) = silent dl' s"
    by (simp_all add: fun_eq_iff paired_sends [OF st] silent_def sends_static(1) [OF st]
        ping_session_effect split: option.split)
  show "expired dl' (ping_session E b dl p s) = expired dl' s"
    by (simp add: fun_eq_iff expired_def eq sends_static(1) [OF st])
qed

lemma ping_loop_fired:
  "fired (disconnectOnce (heap (fold (ping_session E b dl) ps s) q)) \<longleftrightarrow>
     fired (disconnectOnce (heap s q)) \<or> expired dl s ps q"
proof (induction ps arbitrary: s)
  case Nil
  show ?case by (simp add: expired_def)
next
  case (Cons p ps)
  have "expired dl s (p # ps) q \<longleftrightarrow> expired dl s [p] q \<or> expired dl s ps q"
    by (auto simp: expired_def)
  with Cons.IH [of "ping_session E b dl p s"] show ?case
    by (simp add: ping_session_effect ping_session_static disj_assoc)
qed

lemma ping_tick_fired:
  assumes "env_ok E" "finite (dom (sessions s))"
  shows "fired (disconnectOnce (heap (runPingTick E tc s) r)) \<longleftrightarrow>
    fired (disconnectOnce (heap s r)) \<or>
    (\<exists>p. sessions s p = Some r \<and> paired s p \<noteq> None \<and>
       lastSeenUnixNano (heap s r) < ping_deadline E tc)"
proof -
  let ?s1 = "if pings_due E tc s then s\<lparr>lastPingBatchAt := tc_now tc\<rparr> else s"
  have s1: "sessions ?s1 = sessions s" "heap ?s1 = heap s" by simp_all
  have "range_order (sessions s) (range_now E ?s1)"
    using range_now_order [OF assms(1), of ?s1] assms(2) by (simp only: s1)
  then have "set (range_now E ?s1) = dom (sessions s)" by (simp add: range_order_def)
  then have "expired (ping_deadline E tc) (draw ?s1) (range_now E ?s1) r \<longleftrightarrow>
    (\<exists>p. sessions s p = Some r \<and> paired s p \<noteq> None \<and> silent (ping_deadline E tc) s p)"
    by (auto simp: expired_def paired_def silent_def split: option.splits)
  then show ?thesis
    by (auto simp: runPingTick_loop Let_def ping_loop_fired silent_def split: option.splits)
qed





section \<open>Properties\<close>

text \<open>
  C18 Liveness detection: after the keepalive of a tick a session's disconnect has been
  signalled exactly when it had been before or the session is paired and was last seen before
  the deadline (the tick's time minus the timeout). No other session is disconnected.
\<close>

theorem silent_sessions_time_out:
  assumes "env_ok E" "finite (dom (sessions s))"
  shows "fired (disconnectOnce (heap (runPingTick E tc s) r)) \<longleftrightarrow>
    fired (disconnectOnce (heap s r)) \<or>
    (\<exists>p. sessions s p = Some r \<and> paired s p \<noteq> None \<and>
       lastSeenUnixNano (heap s r) < ping_deadline E tc)"
  by (rule ping_tick_fired [OF assms])

lemma silent_sessions_time_out_witness:
  "fired (disconnectOnce (heap (runPingTick demo (demo_tc 60000000000)
     (demo_state sessionReady 5 (Some ''a''))) 0))"
proof -
  have "ping_deadline demo (demo_tc 60000000000) = 30000000000"
    by (simp add: ping_deadline_def demo_tc_def ping_timeout_def demo_cfg_def config_defaults_def
        DefaultPingTimeout_def time_Second_def time_Add_def time_UnixNano_def int64_id)
  then show ?thesis
    using silent_sessions_time_out [OF demo_ok, of "demo_state sessionReady 5 (Some ''a'')"
        "demo_tc 60000000000" 0]
    by (auto simp: paired_def)
qed



end

