(* ===== verification/Dispatch.thy ===== *)
theory Dispatch
  imports TickCtx
begin

text \<open>
  \<open>dispatch.go\<close>: game messages and RPC requests, from the payload of a client frame to
  the handler registered for the populated oneof body, with panic recovery around it.
\<close>

section \<open>Game messages\<close>

definition invokeClientHandler ::
  "('m, 'g) env \<Rightarrow> ('m, 'g) ClientHandler \<Rightarrow> tickctx \<Rightarrow> sref \<Rightarrow> 'm \<Rightarrow> 'g server \<Rightarrow> 'g server" where
  "invokeClientHandler E h tc r msg s =
     (case h tc r msg s of
        (g, cs, res) \<Rightarrow>
          (let s1 = run_commands E cs (record_call (CallHandler r (proto_FullName (pb E) msg)) g s)
           in case res of
                Returned _ \<Rightarrow> s1
              | Panicked v \<Rightarrow> scheduleDisconnect (Some r) (Sentinel ErrHandlerPanic) s1))"

text \<open>
  The common front of both dispatchers: decode into a fresh copy of the prototype.
\<close>

definition decode_into :: "('m, 'g) env \<Rightarrow> 'm \<Rightarrow> bytes \<Rightarrow> goerr + 'm" where
  "decode_into E proto p =
     proto_Unmarshal (pb E) p (proto_Reset (pb E) (proto_Clone (pb E) proto))"

definition dispatchUserMessage ::
  "('m, 'g) env \<Rightarrow> tickctx \<Rightarrow> sref \<Rightarrow> bytes \<Rightarrow> 'g server \<Rightarrow> 'g server" where
  "dispatchUserMessage E tc r p s =
     (case ClientMessagePrototype (cfg E) of
        None \<Rightarrow> s
      | Some proto \<Rightarrow>
          (case decode_into E proto p of
             Inl err \<Rightarrow> s
           | Inr msg \<Rightarrow>
               (case extractOneofBody (pb E) msg of
                  None \<Rightarrow> s
                | Some inner \<Rightarrow>
                    (case handlerRegistry_lookup (pb E) (handlers E) (Some inner) of
                       None \<Rightarrow> s
                     | Some h \<Rightarrow> invokeClientHandler E h tc r inner s))))"

section \<open>RPC requests\<close>

definition marshalRPCResponseFrame :: "('m, 'g) env \<Rightarrow> RpcResponse \<Rightarrow> goerr + bytes" where
  "marshalRPCResponseFrame E resp =
     Marshal_ServerFrame (pb E) \<lparr>server_Body = Some (ServerFrame_RpcResponse resp)\<rparr>"

definition sendRPCOK :: "('m, 'g) env \<Rightarrow> sref \<Rightarrow> u64 \<Rightarrow> bytes \<Rightarrow> 'g server \<Rightarrow> 'g server" where
  "sendRPCOK E r cid respBytes s =
     (case marshalRPCResponseFrame E \<lparr>resp_correlation_id = cid, resp_ok = True,
             resp_error_message = '''', resp_payload = respBytes\<rparr> of
        Inl err \<Rightarrow> s
      | Inr data \<Rightarrow> pushTCP (Some r) data s)"

definition sendRPCError :: "('m, 'g) env \<Rightarrow> sref \<Rightarrow> u64 \<Rightarrow> string \<Rightarrow> 'g server \<Rightarrow> 'g server" where
  "sendRPCError E r cid msg s =
     (case marshalRPCResponseFrame E \<lparr>resp_correlation_id = cid, resp_ok = False,
             resp_error_message = msg, resp_payload = []\<rparr> of
        Inl err \<Rightarrow> s
      | Inr data \<Rightarrow> pushTCP (Some r) data s)"

text \<open>The handler's response and error, a panic being the error \<open>ErrRPCHandlerPanic\<close>.\<close>

definition invokeRPCHandler ::
  "('m, 'g) env \<Rightarrow> ('m, 'g) RPCHandler \<Rightarrow> tickctx \<Rightarrow> sref \<Rightarrow> 'm \<Rightarrow> u64 \<Rightarrow> 'g server \<Rightarrow>
   ('m option \<times> goerr option) \<times> 'g server" where
  "invokeRPCHandler E h tc r req cid s =
     (case h tc r req s of
        (g, cs, res) \<Rightarrow>
          (let s1 = run_commands E cs (record_call (CallRPC r (proto_FullName (pb E) req) cid) g s)
           in case res of
                Returned (resp, err) \<Rightarrow> ((resp, err), s1)
              | Panicked v \<Rightarrow> ((None, Some (Sentinel ErrRPCHandlerPanic)), s1)))"

definition dispatchRPC ::
  "('m, 'g) env \<Rightarrow> tickctx \<Rightarrow> sref \<Rightarrow> RpcRequest option \<Rightarrow> 'g server \<Rightarrow> 'g server" where
  "dispatchRPC E tc r req s =
     (let cid = GetCorrelationId req in
      case RPCRequestPrototype (cfg E) of
        None \<Rightarrow> sendRPCError E r cid ''rpc not configured on server'' s
      | Some proto \<Rightarrow>
          (case decode_into E proto (RpcRequest_GetPayload req) of
             Inl err \<Rightarrow> sendRPCError E r cid ''malformed rpc request'' s
           | Inr msg \<Rightarrow>
               (case extractOneofBody (pb E) msg of
                  None \<Rightarrow> sendRPCError E r cid ''rpc request has no body'' s
                | Some inner \<Rightarrow>
                    (case rpcRegistry_lookup (pb E) (rpcHandlers E) (Some inner) of
                       None \<Rightarrow> sendRPCError E r cid ''no handler for request type'' s
                     | Some h \<Rightarrow>
                         (case invokeRPCHandler E h tc r inner cid s of
                            ((resp, Some err), s1) \<Rightarrow> sendRPCError E r cid (error_text err) s1
                          | ((None, None), s1) \<Rightarrow> sendRPCOK E r cid [] s1
                          | ((Some m, None), s1) \<Rightarrow>
                              (case proto_Marshal (pb E) m of
                                 Inl mErr \<Rightarrow> sendRPCError E r cid ''response marshal failed'' s1
                               | Inr b \<Rightarrow> sendRPCOK E r cid b s1))))))"

section \<open>Lemmas\<close>

lemma sends_dispatch_call: "dispatch_call c \<Longrightarrow> sends s (record_call c g s)"
  by (simp add: sends_def queue_bounded_def)

lemma sends_invokeClientHandler: "sends s (invokeClientHandler E h tc r m s)"
proof -
  obtain g cs res where h: "h tc r m s = (g, cs, res)" by (metis prod_cases3)
  let ?s1 = "run_commands E cs (record_call (CallHandler r (proto_FullName (pb E) m)) g s)"
  have "sends s ?s1"
    by (rule sends_trans [OF sends_dispatch_call sends_run_commands]) simp
  then show ?thesis
    by (auto simp: invokeClientHandler_def h Let_def intro: sends_trans sends_scheduleDisconnect
        split: outcome.splits)
qed

lemma sends_dispatchUserMessage: "sends s (dispatchUserMessage E tc r p s)"
  by (auto simp: dispatchUserMessage_def intro: sends_invokeClientHandler
      split: option.splits sum.splits)

lemma sends_rpc_reply:
  "sends s (sendRPCOK E r cid b s)" "sends s (sendRPCError E r cid m s)"
  by (auto simp: sendRPCOK_def sendRPCError_def intro: sends_pushTCP split: sum.splits)

lemma sends_invokeRPCHandler: "invokeRPCHandler E h tc r m cid s = (re, s') \<Longrightarrow> sends s s'"
  by (auto simp: invokeRPCHandler_def Let_def
      intro: sends_trans [OF sends_dispatch_call sends_run_commands]
      split: prod.splits outcome.splits)

text \<open>
  What the client is told: the reply of a request in each situation, and the state in which
  it is sent.
\<close>

definition rpc_outcome ::
  "('m, 'g) env \<Rightarrow> tickctx \<Rightarrow> sref \<Rightarrow> RpcRequest option \<Rightarrow> 'g server \<Rightarrow> (string + bytes) \<times> 'g server" where
  "rpc_outcome E tc r req s =
     (case RPCRequestPrototype (cfg E) of
        None \<Rightarrow> (Inl ''rpc not configured on server'', s)
      | Some proto \<Rightarrow>
          (case decode_into E proto (RpcRequest_GetPayload req) of
             Inl _ \<Rightarrow> (Inl ''malformed rpc request'', s)
           | Inr msg \<Rightarrow>
               (case extractOneofBody (pb E) msg of
                  None \<Rightarrow> (Inl ''rpc request has no body'', s)
                | Some inner \<Rightarrow>
                    (case rpcRegistry_lookup (pb E) (rpcHandlers E) (Some inner) of
                       None \<Rightarrow> (Inl ''no handler for request type'', s)
                     | Some h \<Rightarrow>
                         (case invokeRPCHandler E h tc r inner (GetCorrelationId req) s of
                            ((resp, err), s1) \<Rightarrow>
                              ((case (resp, err) of
                                  (_, Some e) \<Rightarrow> Inl (error_text e)
                                | (None, None) \<Rightarrow> Inr []
                                | (Some m, None) \<Rightarrow>
                                    (case proto_Marshal (pb E) m of
                                       Inl _ \<Rightarrow> Inl ''response marshal failed''
                                     | Inr b \<Rightarrow> Inr b)), s1))))))"

definition rpc_response :: "u64 \<Rightarrow> string + bytes \<Rightarrow> RpcResponse" where
  "rpc_response cid res =
     \<lparr>resp_correlation_id = cid, resp_ok = (case res of Inl _ \<Rightarrow> False | Inr _ \<Rightarrow> True),
      resp_error_message = (case res of Inl m \<Rightarrow> m | Inr _ \<Rightarrow> ''''),
      resp_payload = (case res of Inl _ \<Rightarrow> [] | Inr b \<Rightarrow> b)\<rparr>"

definition rpc_reply :: "('m, 'g) env \<Rightarrow> sref \<Rightarrow> u64 \<Rightarrow> string + bytes \<Rightarrow> 'g server \<Rightarrow> 'g server" where
  "rpc_reply E r cid res s =
     (case marshalRPCResponseFrame E (rpc_response cid res) of
        Inl _ \<Rightarrow> s | Inr data \<Rightarrow> pushTCP (Some r) data s)"

lemma sendRPC_reply:
  "sendRPCError E r cid m s = rpc_reply E r cid (Inl m) s"
  "sendRPCOK E r cid b s = rpc_reply E r cid (Inr b) s"
  by (simp_all add: sendRPCError_def sendRPCOK_def rpc_reply_def rpc_response_def)

lemma dispatchRPC_replies:
  "dispatchRPC E tc r req s =
    (case rpc_outcome E tc r req s of (res, s1) \<Rightarrow> rpc_reply E r (GetCorrelationId req) res s1)"
  unfolding dispatchRPC_def rpc_outcome_def sendRPC_reply Let_def
  by (simp split: option.split sum.split prod.split)

lemma sends_rpc_outcome: "rpc_outcome E tc r req s = (res, s1) \<Longrightarrow> sends s s1"
  by (auto simp: rpc_outcome_def dest: sends_invokeRPCHandler
      split: option.splits sum.splits prod.splits)

lemma sends_dispatchRPC: "sends s (dispatchRPC E tc r req s)"
proof -
  obtain res s1 where o: "rpc_outcome E tc r req s = (res, s1)" by fastforce
  from sends_rpc_outcome [OF o] show ?thesis
    by (auto simp: dispatchRPC_replies rpc_reply_def o intro: sends_trans sends_pushTCP split: sum.splits)
qed

section \<open>Properties\<close>

text \<open>
  Every RPC request is answered: whatever the request and its handler did, the state after
  it differs from the state the handler left only by one frame at the end of the session's
  outbound queue, an \<open>RpcResponse\<close> with the request's correlation id that carries the
  outcome. (The response marshals and the queue has room.)
\<close>

lemma rpc_answered_once:
  assumes "rpc_outcome E tc r req s = (res, s1)" "can_queue s1 r k"
    and "marshalRPCResponseFrame E (rpc_response (GetCorrelationId req) res) = Inr data"
  shows "dispatchRPC E tc r req s =
      s1\<lparr>chans := (chans s1)(k := (chans s1 k)\<lparr>buf := buf (chans s1 k) @ [data]\<rparr>)\<rparr> \<and>
    resp_correlation_id (rpc_response (GetCorrelationId req) res) = GetCorrelationId req"
  using assms by (simp add: dispatchRPC_replies rpc_reply_def pushTCP_queued rpc_response_def)

lemma demo_lookup [simp]:
  "rpcRegistry_lookup demo_pb (rpcHandlers demo) (Some (Num x)) = Some demo_rpc"
  "handlerRegistry_lookup demo_pb (handlers demo) (Some (Num x)) = Some demo_handler"
  by (simp_all add: demo_def HandleRPC_def HandleClient_def NewServer_def Let_def
      rpcRegistry_register_def rpcRegistry_lookup_def handlerRegistry_register_def
      handlerRegistry_lookup_def rpcRegistry_zero_def handlerRegistry_zero_def)



end

