(* ===== verification/Tick.thy ===== *)
theory Tick
  imports Handshake Ping Dispatch
begin

text \<open>
  \<open>tick.go\<close>: routing of one event, and one iteration of the tick loop, cut where other
  goroutines can interleave: \<open>tick_start\<close> (count, drain), \<open>handleEvent\<close> per event,
  \<open>tick_finish\<close> (keepalive, tick callback).
\<close>

section \<open>Routing\<close>

definition sessIDOrZero :: "sref option \<Rightarrow> 'g server \<Rightarrow> pid" where
  "sessIDOrZero se s = (case se of None \<Rightarrow> 0 | Some r \<Rightarrow> ID (heap s r))"

text \<open>
  The session of an event: the one named in a TCP event, the one paired with the sender's
  address of a datagram, whose last-seen time is then stored. A datagram without an address
  would be a call on a nil interface.
\<close>

definition resolve_session :: "tickctx \<Rightarrow> event \<Rightarrow> 'g server \<Rightarrow> sref option \<times> 'g server" where
  "resolve_session tc e s =
     (if isUDP e then
        (case event_udpAddr e of
           None \<Rightarrow> (None, s\<lparr>panicked := True\<rparr>)
         | Some a \<Rightarrow>
             (case udpSessions s a of
                None \<Rightarrow> (None, s)
              | Some r \<Rightarrow>
                  (Some r, upd_sess r (\<lambda>x. x\<lparr>lastSeenUnixNano := time_UnixNano (tc_now tc)\<rparr>) s)))
      else (sess e, s))"

definition route_body ::
  "('m, 'g) env \<Rightarrow> tickctx \<Rightarrow> event \<Rightarrow> sref option \<Rightarrow> client_body option \<Rightarrow> 'g server \<Rightarrow> 'g server" where
  "route_body E tc e se body s =
     (case body of
        Some (ClientFrame_Login m) \<Rightarrow>
          (case se of
             None \<Rightarrow> s
           | Some r \<Rightarrow>
               if isUDP e \<or> authState (heap s r) \<noteq> sessionPreLogin then s
               else handleLogin E tc r m s)
      | Some (ClientFrame_UdpHandshake m) \<Rightarrow>
          if \<not> isUDP e then s
          else (case event_udpAddr e of
              None \<Rightarrow> s\<lparr>panicked := True\<rparr>
            | Some a \<Rightarrow> handleUDPHandshake E tc a m s)
      | Some (ClientFrame_Pong m) \<Rightarrow>
          (case se of None \<Rightarrow> s | Some r \<Rightarrow> handlePong tc r m s)
      | Some (ClientFrame_GamePayload p) \<Rightarrow>
          (case se of
             None \<Rightarrow> s
           | Some r \<Rightarrow>
               if authState (heap s r) \<noteq> sessionReady then s
               else dispatchUserMessage E tc r p s)
      | Some (ClientFrame_RpcRequest m) \<Rightarrow>
          (case se of
             None \<Rightarrow> s
           | Some r \<Rightarrow>
               if isUDP e \<or> authState (heap s r) \<noteq> sessionReady then s
               else dispatchRPC E tc r m s)
      | None \<Rightarrow> s)"

text \<open>The guard against events of cleaned-up sessions.\<close>

definition stale_event :: "event \<Rightarrow> sref option \<Rightarrow> 'g server \<Rightarrow> bool" where
  "stale_event e se s \<longleftrightarrow>
     (case se of
        None \<Rightarrow> False
      | Some r \<Rightarrow> \<not> isUDP e \<and> ID (heap s r) \<noteq> 0 \<and> sessions s (ID (heap s r)) = None)"

definition dispatchMessage :: "('m, 'g) env \<Rightarrow> tickctx \<Rightarrow> event \<Rightarrow> 'g server \<Rightarrow> 'g server" where
  "dispatchMessage E tc e s =
     (let (se, s1) = resolve_session tc e s in
      if stale_event e se s1 then s1
      else (case Unmarshal_ClientFrame (pb E) (payload e) of
          Inl err \<Rightarrow>
            if se \<noteq> None \<and> \<not> isUDP e
            then scheduleDisconnect se (Sentinel ErrMalformedFrame) s1 else s1
        | Inr frame \<Rightarrow> route_body E tc e se (GetBody (Some frame)) s1))"

definition handleEvent :: "('m, 'g) env \<Rightarrow> tickctx \<Rightarrow> event \<Rightarrow> 'g server \<Rightarrow> 'g server" where
  "handleEvent E tc e s =
     (case kind e of
        eventMessage \<Rightarrow> dispatchMessage E tc e s
      | eventConnect \<Rightarrow>
          (case (OnConnect (cfg E), sess e) of
             (Some cb, Some r) \<Rightarrow> invokeOnConnect cb r s
           | _ \<Rightarrow> s)
      | eventDisconnect \<Rightarrow> cleanupSession E (sess e) (reason e) s)"

section \<open>The tick\<close>

definition invokeOnTick :: "('m, 'g) env \<Rightarrow> ('m, 'g) TickFn \<Rightarrow> tickctx \<Rightarrow> 'g server \<Rightarrow> 'g server" where
  "invokeOnTick E cb tc s =
     (case cb tc s of
        (g, cs, Returned _) \<Rightarrow> run_commands E cs (record_call (CallOnTick (tc_tick tc)) g s)
      | (g, cs, Panicked _) \<Rightarrow> run_commands E cs (record_call (CallOnTick (tc_tick tc)) g s))"

definition tick_start :: "int \<Rightarrow> 'g server \<Rightarrow> tickctx \<times> event list \<times> 'g server" where
  "tick_start t s =
     (let s1 = s\<lparr>tickCount := tickCount s + 1\<rparr>;
          tc = \<lparr>tc_tick = tickCount s1, tc_now = t\<rparr>;
          (evs, q) = drain (events s1)
      in (tc, evs, s1\<lparr>events := q\<rparr>))"

definition tick_finish :: "('m, 'g) env \<Rightarrow> tickctx \<Rightarrow> 'g server \<Rightarrow> 'g server" where
  "tick_finish E tc s =
     (let s1 = runPingTick E tc s in
      case onTick E of None \<Rightarrow> s1 | Some cb \<Rightarrow> invokeOnTick E cb tc s1)"

definition run_tick :: "('m, 'g) env \<Rightarrow> int \<Rightarrow> 'g server \<Rightarrow> 'g server" where
  "run_tick E t s =
     (case tick_start t s of
        (tc, evs, s1) \<Rightarrow> tick_finish E tc (fold (handleEvent E tc) evs s1))"

text \<open>
  \<open>runTickLoop\<close> over the times the ticker delivers before the context is cancelled.
\<close>

definition runTickLoop :: "('m, 'g) env \<Rightarrow> int list \<Rightarrow> 'g server \<Rightarrow> 'g server" where
  "runTickLoop E ts s = fold (run_tick E) ts s"

section \<open>Lemmas\<close>

lemma tick_startD:
  assumes "tick_start t s = (tc, evs, s')"
  shows "evs = ch (events s)" "tc = \<lparr>tc_tick = tickCount s + 1, tc_now = t\<rparr>"
    "s' = s\<lparr>tickCount := tickCount s + 1, events := (events s)\<lparr>ch := []\<rparr>\<rparr>"
  using assms by (auto simp: tick_start_def drain_eq)

lemma sends_invokeOnTick: "sends s (invokeOnTick E cb tc s)"
proof -
  obtain g cs res where cb: "cb tc s = (g, cs, res)" by (metis prod_cases3)
  have "sends s (run_commands E cs (record_call (CallOnTick (tc_tick tc)) g s))"
    by (rule sends_trans [OF sends_dispatch_call sends_run_commands]) simp
  then show ?thesis by (simp add: invokeOnTick_def cb split: outcome.splits)
qed

lemma sends_tick_finish: "sends s (tick_finish E tc s)"
  by (auto simp: tick_finish_def Let_def intro: sends_trans sends_runPingTick sends_invokeOnTick
      split: option.splits)

lemma sends_resolve: "event_udpAddr e \<noteq> None \<or> \<not> isUDP e \<Longrightarrow> sends s (snd (resolve_session tc e s))"
  by (auto simp: resolve_session_def core_def intro!: sends_upd_sess split: option.splits)

section \<open>Callbacks\<close>

text \<open>
  \<open>adds_call s s' ok\<close>: at most one callback was made between the states, and it is one
  that \<open>ok\<close> allows.
\<close>

definition adds_call :: "'g server \<Rightarrow> 'g server \<Rightarrow> (call \<Rightarrow> bool) \<Rightarrow> bool" where
  "adds_call s s' ok \<longleftrightarrow> calls s' = calls s \<or> (\<exists>c. calls s' = calls s @ [c] \<and> ok c)"

lemma adds_call_none: "calls s' = calls s \<Longrightarrow> adds_call s s' ok"
  by (simp add: adds_call_def)

lemma adds_call_mono: "adds_call s s' ok \<Longrightarrow> (\<And>c. ok c \<Longrightarrow> ok' c) \<Longrightarrow> adds_call s s' ok'"
  by (auto simp: adds_call_def)

lemma calls_replies [simp]:
  "calls (sendLoginResponse E r b m p t ep s) = calls s"
  "calls (sendUDPHandshakeAck E a b p s) = calls s"
  "calls (rpc_reply E r cid res s) = calls s"
  "calls (register_session r p t s) = calls s" "calls (pair_session r a n s) = calls s"
  "calls (handlePong tc r pg s) = calls s" "calls (close_chan k s) = calls s"
  by (simp_all add: sendLoginResponse_def sendUDPHandshakeAck_def rpc_reply_def Let_def
      register_session_def pair_session_def handlePong_def close_chan_def split: sum.split)

lemma adds_call_user:
  "adds_call s (dispatchUserMessage E tc r p s) (\<lambda>c. \<exists>n. c = CallHandler r n)"
  by (auto simp: dispatchUserMessage_def adds_call_def invokeClientHandler_def Let_def
      split: option.splits sum.splits prod.splits outcome.splits)

lemma adds_call_rpc:
  "adds_call s (dispatchRPC E tc r q s) (\<lambda>c. \<exists>n. c = CallRPC r n (GetCorrelationId q))"
proof -
  obtain res s1 where o: "rpc_outcome E tc r q s = (res, s1)" by fastforce
  then have "adds_call s s1 (\<lambda>c. \<exists>n. c = CallRPC r n (GetCorrelationId q))"
    by (auto simp: rpc_outcome_def adds_call_def invokeRPCHandler_def Let_def
        split: option.splits sum.splits prod.splits outcome.splits)
  then show ?thesis by (simp add: dispatchRPC_replies o adds_call_def)
qed

lemma adds_call_login: "adds_call s (handleLogin E tc r lm s) (\<lambda>c. c = CallOnAuth r)"
proof -
  obtain v s1 where v: "login_verdict E lm s = (v, s1)" by fastforce
  then obtain g where s1: "s1 = s\<lparr>game := g\<rparr>" using login_verdict_state by blast
  have "calls (snd (generateSessionToken E s1)) = calls s"
    by (simp add: generateSessionToken_def s1 split: option.split)
  then show ?thesis
    by (cases v) (auto simp: handleLogin_verdict v s1 adds_call_def acceptLogin_def Let_def invoke_eq
        split: prod.splits option.splits)
qed

lemma adds_call_handshake:
  "adds_call s (handleUDPHandshake E tc a hs s)
     (\<lambda>c. \<exists>r. c = CallOnConnect r \<and> sessions s (UdpHandshake_GetPlayerId hs) = Some r \<and>
        authState (heap s r) = sessionAwaitingUDP \<and>
        sessionToken (heap s r) = UdpHandshake_GetSessionToken hs)"
  by (auto simp: handleUDPHandshake_def adds_call_def Let_def invoke_eq split: option.splits)

lemma adds_call_cleanup:
  "adds_call s (cleanupSession E se err s) (\<lambda>c. \<exists>r. c = CallOnDisconnect r err \<and> se = Some r)"
  by (cases se) (auto simp: cleanupSession_def adds_call_def Let_def invoke_eq split: option.splits)

lemma resolve_session_facts:
  "calls (snd (resolve_session tc e s)) = calls s"
  "sessions (snd (resolve_session tc e s)) = sessions s"
  "core (heap (snd (resolve_session tc e s)) r) = core (heap s r)"
  by (auto simp: resolve_session_def core_def split: option.splits)

text \<open>Which callback an event may lead to, in the state in which it is handled.\<close>

fun call_allowed :: "event \<Rightarrow> 'g server \<Rightarrow> call \<Rightarrow> bool" where
  "call_allowed e s (CallHandler r n) \<longleftrightarrow> kind e = eventMessage \<and> authState (heap s r) = sessionReady"
| "call_allowed e s (CallRPC r n cid) \<longleftrightarrow>
     kind e = eventMessage \<and> \<not> isUDP e \<and> sess e = Some r \<and> authState (heap s r) = sessionReady"
| "call_allowed e s (CallOnAuth r) \<longleftrightarrow>
     kind e = eventMessage \<and> \<not> isUDP e \<and> sess e = Some r \<and> authState (heap s r) = sessionPreLogin"
| "call_allowed e s (CallOnConnect r) \<longleftrightarrow>
     (kind e = eventMessage \<and> isUDP e \<and> authState (heap s r) = sessionAwaitingUDP \<and>
        r \<in> ran (sessions s)) \<or>
     kind e = eventConnect"
| "call_allowed e s (CallOnDisconnect r err) \<longleftrightarrow>
     kind e = eventDisconnect \<and> sess e = Some r \<and> reason e = err"
| "call_allowed e s (CallOnTick n) \<longleftrightarrow> False"

lemma adds_call_route:
  assumes "kind e = eventMessage" "\<not> isUDP e \<Longrightarrow> se = sess e"
  shows "adds_call s (route_body E tc e se body s) (call_allowed e s)"
proof (cases "\<exists>m. body = Some (ClientFrame_UdpHandshake m)")
  case True
  then obtain m where b: "body = Some (ClientFrame_UdpHandshake m)" by blast
  have "adds_call s (handleUDPHandshake E tc a m s) (call_allowed e s)" if "isUDP e" for a
    by (rule adds_call_mono [OF adds_call_handshake]) (use that assms(1) in \<open>auto intro: ranI\<close>)
  then show ?thesis by (auto simp: route_body_def b adds_call_none split: option.split)
next
  case False
  show ?thesis
  proof (cases se)
    case None
    with False show ?thesis
      by (auto simp: route_body_def adds_call_none split: option.split client_body.split)
  next
    case (Some r)
    have "adds_call s (handleLogin E tc r m s) (call_allowed e s)"
      if "\<not> isUDP e" "authState (heap s r) = sessionPreLogin" for m
      by (rule adds_call_mono [OF adds_call_login]) (use that assms Some in auto)
    moreover have "adds_call s (dispatchUserMessage E tc r p s) (call_allowed e s)"
      if "authState (heap s r) = sessionReady" for p
      by (rule adds_call_mono [OF adds_call_user]) (use that assms in auto)
    moreover have "adds_call s (dispatchRPC E tc r q s) (call_allowed e s)"
      if "\<not> isUDP e" "authState (heap s r) = sessionReady" for q
      by (rule adds_call_mono [OF adds_call_rpc]) (use that assms Some in auto)
    ultimately show ?thesis
      using False by (auto simp: route_body_def Some adds_call_none split: option.split client_body.split)
  qed
qed

lemma call_allowed_resolve: "call_allowed e (snd (resolve_session tc e s)) c = call_allowed e s c"
proof -
  have "authState (heap (snd (resolve_session tc e s)) r) = authState (heap s r)" for r
    using resolve_session_facts(3) [of tc e s r] by (simp add: core_eq_iff)
  then show ?thesis by (cases c) (simp_all add: resolve_session_facts)
qed

lemma adds_call_event:
  "adds_call s (handleEvent E tc e s) (call_allowed e s)"
proof (cases "kind e")
  case eventMessage
  obtain se s1 where rs: "resolve_session tc e s = (se, s1)" by fastforce
  have calls1: "calls s1 = calls s" using resolve_session_facts(1) [of tc e s] rs by simp
  have "\<not> isUDP e \<Longrightarrow> se = sess e" using rs by (simp add: resolve_session_def)
  then have "adds_call s1 (route_body E tc e se body s1) (call_allowed e s1)" for body
    by (rule adds_call_route [OF eventMessage])
  then have "adds_call s (route_body E tc e se body s1) (call_allowed e s)" for body
    using call_allowed_resolve [of e tc s] rs by (simp add: adds_call_def calls1)
  then show ?thesis
    by (auto simp: handleEvent_def eventMessage dispatchMessage_def rs adds_call_none calls1
        split: sum.split)
next
  case eventConnect
  then show ?thesis
    by (auto simp: handleEvent_def adds_call_def invoke_eq split: option.split)
next
  case eventDisconnect
  have "adds_call s (cleanupSession E (sess e) (reason e) s) (call_allowed e s)"
    by (rule adds_call_mono [OF adds_call_cleanup]) (use eventDisconnect in auto)
  with eventDisconnect show ?thesis by (simp add: handleEvent_def)
qed

definition is_tick_call :: "call \<Rightarrow> bool" where
  "is_tick_call c \<longleftrightarrow> (case c of CallOnTick n \<Rightarrow> True | _ \<Rightarrow> False)"

definition tick_calls :: "'g server \<Rightarrow> call list" where
  "tick_calls s = filter is_tick_call (calls s)"

lemma tick_calls_event [simp]: "tick_calls (handleEvent E tc e s) = tick_calls s"
proof -
  have "\<not> is_tick_call c" if "call_allowed e s c" for c
    using that by (cases c) (simp_all add: is_tick_call_def)
  then show ?thesis using adds_call_event [of s E tc e] by (auto simp: adds_call_def tick_calls_def)
qed

lemma tick_calls_batch [simp]: "tick_calls (fold (handleEvent E tc) es s) = tick_calls s"
  by (rule fold_preserves) simp

lemma calls_runPingTick [simp]: "calls (runPingTick E tc s) = calls s"
proof -
  have "calls (ping_session E b dl p s) = calls s" for b dl p s
    by (auto simp: ping_session_def sendPing_def ping_nonce_bytes_def Let_def
        split: option.splits sum.splits)
  then show ?thesis
    by (auto simp: runPingTick_def Let_def intro!: trans [OF fold_preserves [of _ calls]])
qed

section \<open>Properties\<close>


text \<open>A TCP message whose session has a player id that has left the table changes nothing.\<close>

lemma stale_events_dropped:
  assumes "kind e = eventMessage" "\<not> isUDP e" "sess e = Some r"
    and "ID (heap s r) \<noteq> 0" "sessions s (ID (heap s r)) = None"
  shows "handleEvent E tc e s = s"
  using assms by (simp add: handleEvent_def dispatchMessage_def resolve_session_def stale_event_def)

text \<open>
  The test compares ids, not sessions: once the same player is back on another connection, a
  message that the departed session left in the queue is dispatched as if it were alive.
\<close>

lemma stale_check_is_by_id:
  assumes "kind e = eventMessage" "\<not> isUDP e" "sess e = Some old"
    and "sessions s (ID (heap s old)) = Some new" "new \<noteq> old"
    and "Unmarshal_ClientFrame (pb E) (payload e) = Inr \<lparr>client_Body = Some (ClientFrame_GamePayload p)\<rparr>"
    and "authState (heap s old) = sessionReady"
  shows "handleEvent E tc e s = dispatchUserMessage E tc old p s"
  using assms
  by (simp add: handleEvent_def dispatchMessage_def resolve_session_def stale_event_def GetBody_def
      route_body_def)

end

