(* ===== verification/Lifecycle.thy ===== *)
theory Lifecycle
  imports Tick
begin

text \<open>
  The session state machine (\<open>session.go\<close>, \<open>docs/ARCHITECTURE.md\<close> section 4): what any
  event may change about a session, and that sessions only move forward.
\<close>

section \<open>Moving forward\<close>

text \<open>
  \<open>advances s s'\<close>: no session moves back in the handshake; an assigned id and token stay;
  a paired address stays; the connection stays; an outbound channel is only ever given up;
  a fired flag stays fired.
\<close>

definition sess_advances :: "session \<Rightarrow> session \<Rightarrow> bool" where
  "sess_advances x y \<longleftrightarrow>
     authState x \<le> authState y \<and> tcp y = tcp x \<and>
     (authState x \<noteq> sessionPreLogin \<longrightarrow> ID y = ID x \<and> sessionToken y = sessionToken x) \<and>
     (authState x = sessionReady \<longrightarrow> session_udpAddr y = session_udpAddr x) \<and>
     (sendTCP y = sendTCP x \<or> sendTCP y = None) \<and>
     (fired (disconnectOnce x) \<longrightarrow> fired (disconnectOnce y))"

definition advances :: "'g server \<Rightarrow> 'g server \<Rightarrow> bool" where
  "advances s s' \<longleftrightarrow> next_ref s' = next_ref s \<and> tickCount s' = tickCount s \<and>
     depth (events s') = depth (events s) \<and>
     (\<forall>r. sess_advances (heap s r) (heap s' r)) \<and> (\<exists>cs. calls s' = calls s @ cs)"

lemma sess_advances_refl [simp]: "sess_advances x x"
  by (simp add: sess_advances_def)

lemma auth_between: "a \<le> b \<Longrightarrow> (b :: sessionAuthState) \<noteq> sessionPreLogin \<or> a = sessionPreLogin"
  by (cases a; cases b) (auto simp: less_eq_sessionAuthState_def)

lemma sess_advances_trans:
  assumes "sess_advances x y" "sess_advances y z"
  shows "sess_advances x z"
proof -
  have "authState x \<le> authState z"
    using assms unfolding sess_advances_def by (meson order_trans)
  moreover have "authState y \<noteq> sessionPreLogin" if "authState x \<noteq> sessionPreLogin"
    using that assms(1) auth_between unfolding sess_advances_def by blast
  moreover have "authState y = sessionReady" if "authState x = sessionReady"
    using that assms(1) by (simp add: sess_advances_def)
  ultimately show ?thesis
    using assms unfolding sess_advances_def by auto
qed

lemma advances_refl [simp, intro]: "advances s s"
  by (simp add: advances_def)

lemma advances_trans [trans]:
  assumes "advances s s1" "advances s1 s2"
  shows "advances s s2"
proof -
  from assms obtain cs cs' where "calls s1 = calls s @ cs" "calls s2 = calls s1 @ cs'"
    unfolding advances_def by blast
  then have "\<exists>cs. calls s2 = calls s @ cs" by simp
  moreover have "sess_advances (heap s r) (heap s2 r)" for r
    using assms sess_advances_trans unfolding advances_def by blast
  ultimately show ?thesis using assms unfolding advances_def by simp
qed

lemma advances_fold:
  assumes "\<And>x s. advances s (f x s)"
  shows "advances s (fold f xs s)"
proof (induction xs arbitrary: s)
  case (Cons x xs)
  from assms [of s x] Cons.IH [of "f x s"] show ?case by (simp add: advances_trans)
qed simp

section \<open>Every operation moves forward\<close>

lemma sends_advances:
  assumes "sends s s'"
  shows "advances s s'"
proof -
  obtain cs where "calls s' = calls s @ cs" using sends_calls [OF assms] by blast
  then show ?thesis
    using sends_fired [OF assms]
    by (simp add: advances_def sess_advances_def sends_core [OF assms] sends_static [OF assms])
qed

lemma advances_register:
  assumes "authState (heap s r) = sessionPreLogin"
  shows "advances s (register_session r p t s)"
  using assms by (simp add: advances_def sess_advances_def register_session_def Let_def upd_sess_def)

lemma advances_pair:
  assumes "authState (heap s r) = sessionAwaitingUDP"
  shows "advances s (pair_session r a t s)"
  using assms by (simp add: advances_def sess_advances_def pair_session_def Let_def upd_sess_def)

lemma advances_record: "advances s (record_call c g s)"
  by (simp add: advances_def)

lemma advances_handleLogin:
  assumes "authState (heap s r) = sessionPreLogin"
  shows "advances s (handleLogin E tc r lm s)"
proof (cases rule: handleLogin_cases [of s E tc r lm])
  case rejected
  then show ?thesis by (rule sends_advances)
next
  case (accepted playerID token s1 s2 s4)
  let ?s3 = "register_session r playerID token s2"
  have "advances s s2" using accepted(1) by (rule sends_advances)
  also have "advances s2 ?s3"
    using assms by (intro advances_register) (simp add: sends_core [OF accepted(1)])
  also have "advances ?s3 s4"
    using accepted(3) by (auto intro: advances_record)
  also have "advances s4 (handleLogin E tc r lm s)"
    using accepted(4) by (rule sends_advances)
  finally show ?thesis .
qed

lemma advances_handleUDPHandshake: "advances s (handleUDPHandshake E tc a hs s)"
proof (cases rule: handleUDPHandshake_cases [of s E tc a hs])
  case rejected
  then show ?thesis by (rule sends_advances)
next
  case (accepted r t s1 s2)
  have "advances s (draw s)" by (rule sends_advances) simp
  also have "advances (draw s) s1"
    using accepted(3) unfolding accepted(4) by (intro advances_pair) simp
  also have "advances s1 s2" using accepted(5) by (rule sends_advances)
  also have "advances s2 (handleUDPHandshake E tc a hs s)"
    using accepted(6) by (auto intro: advances_record)
  finally show ?thesis .
qed

lemma advances_cleanupSession: "advances s (cleanupSession E se err s)"
proof (cases se)
  case None
  then show ?thesis by (simp add: cleanupSession_def)
next
  case (Some r)
  define s1 where "s1 = (if ID (heap s r) \<noteq> 0
    then s\<lparr>sessions := (sessions s)(ID (heap s r) := None)\<rparr> else s)"
  define s2 where "s2 = (case session_udpAddr (heap s1 r) of
    None \<Rightarrow> s1 | Some a \<Rightarrow> s1\<lparr>udpSessions := (udpSessions s1)(a := None)\<rparr>)"
  define s3 where "s3 = close_conn (tcp (heap s2 r)) s2"
  define s4 where "s4 = (case sendTCP (heap s3 r) of
    None \<Rightarrow> s3 | Some k \<Rightarrow> upd_sess r (sendTCP_update (\<lambda>_. None)) (close_chan k s3))"
  have eq: "cleanupSession E se err s = (case OnDisconnect (cfg E) of
      None \<Rightarrow> s4 | Some cb \<Rightarrow> invokeOnDisconnect cb r err s4)"
    by (simp only: Some cleanupSession_def option.case Let_def s1_def s2_def s3_def s4_def)
  have "advances s s1" by (simp add: s1_def advances_def)
  also have "advances s1 s2" by (simp add: s2_def advances_def split: option.split)
  also have "advances s2 s3" by (simp add: s3_def advances_def)
  also have "advances s3 s4"
    by (simp add: s4_def advances_def sess_advances_def close_chan_def split: option.split)
  also have "advances s4 (cleanupSession E se err s)"
    by (simp add: eq invoke_eq advances_record split: option.split)
  finally show ?thesis .
qed

lemma advances_panicked [simp]: "advances s (s\<lparr>panicked := True\<rparr>)"
  by (simp add: advances_def)

lemma advances_resolve: "advances s (snd (resolve_session tc e s))"
  by (auto simp: resolve_session_def advances_def sess_advances_def split: option.splits)

lemma advances_route: "advances s (route_body E tc e se body s)"
  by (auto simp: route_body_def
      intro: advances_handleLogin advances_handleUDPHandshake
        sends_advances [OF sends_handlePong] sends_advances [OF sends_dispatchUserMessage]
        sends_advances [OF sends_dispatchRPC]
      split: option.splits client_body.splits)

lemma advances_dispatchMessage: "advances s (dispatchMessage E tc e s)"
proof -
  obtain se s1 where rs: "resolve_session tc e s = (se, s1)" by fastforce
  then have "advances s s1" using advances_resolve [of s tc e] by simp
  then show ?thesis
    by (auto simp: dispatchMessage_def rs
        intro: advances_trans advances_route sends_advances [OF sends_scheduleDisconnect]
        split: sum.splits)
qed

lemma advances_handleEvent: "advances s (handleEvent E tc e s)"
  by (auto simp: handleEvent_def invoke_eq
      intro: advances_dispatchMessage advances_cleanupSession advances_record
      split: eventKind.splits option.splits)

lemma advances_tick_finish: "advances s (tick_finish E tc s)"
  by (rule sends_advances [OF sends_tick_finish])

section \<open>Transitions of the handshake\<close>

text \<open>The two events that move a session, with what they need and what they leave.\<close>

definition login_step :: "('m, 'g) env \<Rightarrow> event \<Rightarrow> 'g server \<Rightarrow> sref \<Rightarrow> 'g server \<Rightarrow> bool" where
  "login_step E e s r s' \<longleftrightarrow>
     kind e = eventMessage \<and> \<not> isUDP e \<and> sess e = Some r \<and>
     authState (heap s r) = sessionPreLogin \<and> authState (heap s' r) = sessionAwaitingUDP \<and>
     (\<exists>lm creds p s1.
        Unmarshal_ClientFrame (pb E) (payload e) = Inr \<lparr>client_Body = Some (ClientFrame_Login lm)\<rparr> \<and>
        login_verdict E lm s = (Inr (creds, p), s1) \<and>
        ID (heap s' r) = p \<and> sessions s p = None \<and> sessions s' p = Some r)"

definition pairing_step :: "('m, 'g) env \<Rightarrow> event \<Rightarrow> 'g server \<Rightarrow> sref \<Rightarrow> 'g server \<Rightarrow> bool" where
  "pairing_step E e s r s' \<longleftrightarrow>
     kind e = eventMessage \<and> isUDP e \<and>
     authState (heap s r) = sessionAwaitingUDP \<and> authState (heap s' r) = sessionReady \<and>
     (\<exists>a hs. event_udpAddr e = Some a \<and>
        Unmarshal_ClientFrame (pb E) (payload e) = Inr \<lparr>client_Body = Some (ClientFrame_UdpHandshake hs)\<rparr> \<and>
        sessions s (UdpHandshake_GetPlayerId hs) = Some r \<and>
        sessionToken (heap s r) = UdpHandshake_GetSessionToken hs \<and>
        session_udpAddr (heap s' r) = Some a)"

lemma auth_sends: "sends s s' \<Longrightarrow> authState (heap s' q) = authState (heap s q)"
  by (rule sends_core(2))

lemma auth_handleLogin:
  fixes E tc r lm and s :: "'g server"
  defines "s' \<equiv> handleLogin E tc r lm s"
  shows "authState (heap s' q) = authState (heap s q) \<or>
    (q = r \<and> authState (heap s' r) = sessionAwaitingUDP \<and>
     (\<exists>creds p s1. login_verdict E lm s = (Inr (creds, p), s1) \<and>
        ID (heap s' r) = p \<and> sessions s p = None \<and> sessions s' p = Some r))"
proof -
  obtain v s1 where v: "login_verdict E lm s = (v, s1)" by fastforce
  then obtain g where s1: "s1 = s\<lparr>game := g\<rparr>" using login_verdict_state by blast
  then have sends1: "sends s s1" by simp
  show ?thesis
  proof (cases v)
    case (Inl te)
    then have "sends s s'"
      by (cases te) (simp add: s'_def handleLogin_verdict v sends_reject [OF sends1])
    then show ?thesis by (simp add: auth_sends)
  next
    case (Inr cp)
    obtain creds p where cp: "cp = (creds, p)" by fastforce
    have "sessions s1 p = None" using v unfolding Inr cp by (rule login_verdict_free)
    then have free: "sessions s p = None" by (simp add: s1)
    have s': "s' = acceptLogin E r creds p s1"
      by (simp add: s'_def handleLogin_verdict v Inr cp)
    obtain token s2 s4 where steps: "sends s1 s2"
      "s4 = register_session r p token s2 \<or>
       (\<exists>g. s4 = record_call (CallOnAuth r) g (register_session r p token s2))"
      "sends s4 s'"
      unfolding s' by (rule acceptLogin_steps)
    note st = sends_core [OF sends_trans [OF sends1 steps(1)]] sends_core [OF steps(3)]
      sends_static(1) [OF steps(3)]
    have "authState (heap s' q) = (if q = r then sessionAwaitingUDP else authState (heap s q))"
      "ID (heap s' r) = p" "sessions s' p = Some r"
      using steps(2) by (auto simp: st register_session_def Let_def)
    with v Inr cp free show ?thesis by auto
  qed
qed

lemma auth_handleUDPHandshake:
  fixes E tc a hs and s :: "'g server"
  defines "s' \<equiv> handleUDPHandshake E tc a hs s"
  shows "authState (heap s' q) = authState (heap s q) \<or>
    (authState (heap s q) = sessionAwaitingUDP \<and> authState (heap s' q) = sessionReady \<and>
     sessions s (UdpHandshake_GetPlayerId hs) = Some q \<and>
     sessionToken (heap s q) = UdpHandshake_GetSessionToken hs \<and>
     session_udpAddr (heap s' q) = Some a)"
proof (cases rule: handleUDPHandshake_cases [of s E tc a hs])
  case rejected
  then show ?thesis by (simp add: auth_sends s'_def)
next
  case (accepted r t s1 s2)
  note st = sends_core [OF accepted(5)]
  have "heap s' = heap s2" using accepted(6) by (auto simp: s'_def)
  then have "authState (heap s' q) = (if q = r then sessionReady else authState (heap s q))"
    "session_udpAddr (heap s' r) = Some a"
    by (simp_all add: st accepted(4) pair_session_def Let_def)
  with accepted(1-3) show ?thesis by auto
qed

lemma auth_cleanup [simp]: "authState (heap (cleanupSession E se err s) q) = authState (heap s q)"
  by (cases se) (auto simp: cleanupSession_def Let_def invoke_eq close_chan_def split: option.splits)

text \<open>What routing a body amounts to.\<close>

lemma route_body_cases:
  obtains (sends) "sends s (route_body E tc e se body s)"
  | (login) r lm where "body = Some (ClientFrame_Login lm)" "se = Some r" "\<not> isUDP e"
      "authState (heap s r) = sessionPreLogin" "route_body E tc e se body s = handleLogin E tc r lm s"
  | (pair) a hs where "body = Some (ClientFrame_UdpHandshake hs)" "isUDP e"
      "event_udpAddr e = Some a" "route_body E tc e se body s = handleUDPHandshake E tc a hs s"
  | (panic) "route_body E tc e se body s = s\<lparr>panicked := True\<rparr>"
proof (cases body)
  case None
  then show thesis using that(1) by (simp add: route_body_def)
next
  case (Some b)
  show thesis
  proof (cases b)
    case (ClientFrame_Login lm)
    show thesis
      using that(1) that(2) [of lm]
      by (cases se; cases "isUDP e"; cases "authState (heap s (the se)) = sessionPreLogin")
        (simp_all add: Some ClientFrame_Login route_body_def)
  next
    case (ClientFrame_UdpHandshake hs)
    note body = Some ClientFrame_UdpHandshake
    show thesis
    proof (cases "isUDP e")
      case False
      then show thesis by (intro sends) (simp add: body route_body_def)
    next
      case True
      note udp = True
      show thesis
      proof (cases "event_udpAddr e")
        case None
        with udp show thesis by (intro panic) (simp add: body route_body_def)
      next
        case (Some a)
        with udp show thesis by (intro pair [where a = a and hs = hs]) (simp_all add: body route_body_def)
      qed
    qed
  next
    case (ClientFrame_Pong m)
    show thesis
      using that(1) by (cases se) (simp_all add: Some ClientFrame_Pong route_body_def sends_handlePong)
  next
    case (ClientFrame_GamePayload p)
    show thesis
      using that(1) by (cases se) (simp_all add: Some ClientFrame_GamePayload route_body_def
          sends_dispatchUserMessage split: if_splits)
  next
    case (ClientFrame_RpcRequest q)
    show thesis
      using that(1) by (cases se) (simp_all add: Some ClientFrame_RpcRequest route_body_def
          sends_dispatchRPC split: if_splits)
  qed
qed

lemma auth_route:
  fixes E tc e body and s :: "'g server"
  assumes "kind e = eventMessage" "\<not> isUDP e \<Longrightarrow> se = sess e"
    "Unmarshal_ClientFrame (pb E) (payload e) = Inr \<lparr>client_Body = body\<rparr>"
  defines "s' \<equiv> route_body E tc e se body s"
  shows "authState (heap s' q) = authState (heap s q) \<or> login_step E e s q s' \<or> pairing_step E e s q s'"
proof (cases rule: route_body_cases [of s E tc e se body])
  case sends
  then show ?thesis by (simp add: auth_sends s'_def)
next
  case (login r lm)
  then show ?thesis
    using auth_handleLogin [of E tc r lm s q] assms(1-3) by (auto simp: s'_def login_step_def)
next
  case (pair a hs)
  then show ?thesis
    using auth_handleUDPHandshake [of E tc a hs s q] assms(1,3) by (auto simp: s'_def pairing_step_def)
next
  case panic
  then show ?thesis by (simp add: s'_def)
qed

section \<open>Tick numbers\<close>

lemma tickCount_handleEvent [simp]: "tickCount (handleEvent E tc e s) = tickCount s"
  using advances_handleEvent [of s E tc e] by (simp add: advances_def)

lemma tickCount_batch: "tickCount (fold (handleEvent E tc) es s) = tickCount s"
  by (rule fold_preserves) (rule tickCount_handleEvent)

lemma run_tick_count:
  "tickCount (run_tick E t s) = tickCount s + 1"
  "tick_calls (run_tick E t s) = tick_calls s @
     (case onTick E of None \<Rightarrow> [] | Some _ \<Rightarrow> [CallOnTick (tickCount s + 1)])"
proof -
  obtain tc evs s1 where ts: "tick_start t s = (tc, evs, s1)" by (metis prod_cases3)
  then have s1: "tickCount s1 = tickCount s + 1" "tc_tick tc = tickCount s + 1"
    "tick_calls s1 = tick_calls s"
    by (auto simp: tick_start_def drain_eq tick_calls_def)
  let ?s2 = "fold (handleEvent E tc) evs s1"
  have "tickCount (tick_finish E tc ?s2) = tickCount ?s2"
    by (rule sends_static(4) [OF sends_tick_finish])
  then show "tickCount (run_tick E t s) = tickCount s + 1"
    by (simp add: run_tick_def ts s1 tickCount_batch)
  have "tick_calls (tick_finish E tc ?s2) = tick_calls ?s2 @
      (case onTick E of None \<Rightarrow> [] | Some _ \<Rightarrow> [CallOnTick (tc_tick tc)])"
    by (auto simp: tick_finish_def Let_def invokeOnTick_def tick_calls_def is_tick_call_def
        split: option.splits prod.splits outcome.splits)
  then show "tick_calls (run_tick E t s) = tick_calls s @
     (case onTick E of None \<Rightarrow> [] | Some _ \<Rightarrow> [CallOnTick (tickCount s + 1)])"
    by (simp add: run_tick_def ts s1 split: option.split)
qed

section \<open>Properties\<close>

text \<open>
  Tick numbering: after any number of ticks the tick counter has advanced by exactly that
  number (modulo 2^64), and the tick callback, when set, has been called once per tick with
  the consecutive tick numbers, in order, whatever events the ticks handled.
\<close>

lemma ticks_are_numbered:
  "tickCount (runTickLoop E ts s) = tickCount s + word_of_nat (length ts) \<and>
   tick_calls (runTickLoop E ts s) = tick_calls s @
     (case onTick E of None \<Rightarrow> []
      | Some _ \<Rightarrow> map (\<lambda>i. CallOnTick (tickCount s + word_of_nat (Suc i))) [0..<length ts])"
  unfolding runTickLoop_def
proof (induction ts arbitrary: s)
  case Nil
  show ?case by (simp split: option.split)
next
  case (Cons t ts)
  have "map (\<lambda>i. CallOnTick (tickCount s + word_of_nat (Suc i))) [0..<length (t # ts)] =
      CallOnTick (tickCount s + 1) #
      map (\<lambda>i. CallOnTick (tickCount s + 1 + word_of_nat (Suc i))) [0..<length ts]"
    by (simp add: upt_conv_Cons map_Suc_upt [symmetric] algebra_simps del: upt_Suc)
  with Cons.IH [of "run_tick E t s"] show ?case
    by (simp add: run_tick_count algebra_simps split: option.split)
qed

text \<open>
  C3 Only the handshake moves a session, and only by its rules: handling an event leaves the
  authentication state of every session as it was, or logs in the session of a TCP message
  that holds credentials which \<open>Authenticate\<close> accepted for a player id that was free, or
  makes a session ready on a datagram that names its player id and carries its token. There
  is no other way to become authenticated or ready.
\<close>

theorem auth_transitions:
  "authState (heap (handleEvent E tc e s) q) = authState (heap s q) \<or>
   login_step E e s q (handleEvent E tc e s) \<or> pairing_step E e s q (handleEvent E tc e s)"
proof (cases "kind e")
  case eventMessage
  obtain se s1 where rs: "resolve_session tc e s = (se, s1)" by fastforce
  have s1: "authState (heap s1 r) = authState (heap s r)" "sessionToken (heap s1 r) = sessionToken (heap s r)"
    "sessions s1 = sessions s" for r
    using resolve_session_facts [of tc e s] rs by (auto simp: core_eq_iff)
  show ?thesis
  proof (cases "handleEvent E tc e s = s1 \<or> (\<exists>err. handleEvent E tc e s = scheduleDisconnect se err s1)")
    case True
    then have "authState (heap (handleEvent E tc e s) q) = authState (heap s1 q)"
      by (auto simp: auth_sends [OF sends_scheduleDisconnect])
    then show ?thesis by (simp add: s1)
  next
    case False
    then obtain fr where fr: "Unmarshal_ClientFrame (pb E) (payload e) = Inr fr"
      "handleEvent E tc e s = route_body E tc e se (client_Body fr) s1"
      by (auto simp: handleEvent_def eventMessage dispatchMessage_def rs GetBody_def
          split: if_splits sum.splits)
    define body where "body = client_Body fr"
    have "\<lparr>client_Body = body\<rparr> = fr" by (simp add: body_def)
    with fr(1) have b1: "Unmarshal_ClientFrame (pb E) (payload e) = Inr \<lparr>client_Body = body\<rparr>"
      by (simp only:)
    have b2: "handleEvent E tc e s = route_body E tc e se body s1"
      unfolding body_def by (rule fr(2))
    let ?s' = "route_body E tc e se body s1"
    have tcp: "\<not> isUDP e \<Longrightarrow> se = sess e" "\<not> isUDP e \<Longrightarrow> s1 = s"
      using rs by (auto simp: resolve_session_def)
    have "authState (heap ?s' q) = authState (heap s1 q) \<or> login_step E e s1 q ?s' \<or> pairing_step E e s1 q ?s'"
      by (rule auth_route [OF eventMessage tcp(1) b1])
    moreover have "login_step E e s q ?s'" if "login_step E e s1 q ?s'"
    proof -
      have "\<not> isUDP e" using that by (simp add: login_step_def)
      with that show ?thesis using tcp(2) by simp
    qed
    moreover have "pairing_step E e s1 q ?s' = pairing_step E e s q ?s'"
      by (simp add: pairing_step_def s1)
    ultimately show ?thesis by (simp add: b2 s1) blast
  qed
qed (auto simp: handleEvent_def invoke_eq split: option.split)

end

