(* ===== verification/Invariant.thy ===== *)
theory Invariant
  imports Lifecycle
begin

text \<open>
  The consistency of the server's state between two events of a tick, and the proof that
  every operation of the tick goroutine keeps it. \<open>b\<close> is the rest of the batch that the
  current tick has drained and not handled yet.
\<close>

section \<open>The invariant\<close>

definition pending :: "sref \<Rightarrow> event list \<Rightarrow> nat" where
  "pending r es = length (filter (\<lambda>e. kind e = eventDisconnect \<and> sess e = Some r) es)"

definition disconnects :: "sref \<Rightarrow> call list \<Rightarrow> nat" where
  "disconnects r cs = length (filter (\<lambda>c. \<exists>err. c = CallOnDisconnect r err) cs)"

definition connects :: "sref \<Rightarrow> call list \<Rightarrow> nat" where
  "connects r cs = count_list cs (CallOnConnect r)"

text \<open>The events that the I/O goroutines and \<open>scheduleDisconnect\<close> produce.\<close>

definition event_wf :: "nat \<Rightarrow> event \<Rightarrow> bool" where
  "event_wf n e \<longleftrightarrow>
     (case kind e of
        eventMessage \<Rightarrow>
          (if isUDP e then sess e = None \<and> event_udpAddr e \<noteq> None
           else (case sess e of None \<Rightarrow> False | Some r \<Rightarrow> r < n))
      | eventConnect \<Rightarrow> False
      | eventDisconnect \<Rightarrow> (case sess e of None \<Rightarrow> False | Some r \<Rightarrow> r < n))"

text \<open>
  Outbound channels and disconnect signals. A session whose flag has not fired still has its
  channel; a session with a queued disconnect has fired it and still has its channel; no
  channel that a session holds is closed.
\<close>

definition chan_inv :: "event list \<Rightarrow> 'g server \<Rightarrow> bool" where
  "chan_inv b s \<longleftrightarrow>
     (\<forall>r k. sendTCP (heap s r) = Some k \<longrightarrow> k = r \<and> r < next_ref s \<and> \<not> is_closed (chans s r)) \<and>
     (\<forall>r. \<not> fired (disconnectOnce (heap s r)) \<longrightarrow> sendTCP (heap s r) \<noteq> None) \<and>
     (\<forall>r. pending r (b @ ch (events s)) \<le> 1) \<and>
     (\<forall>r. 0 < pending r (b @ ch (events s)) \<longrightarrow>
        fired (disconnectOnce (heap s r)) \<and> sendTCP (heap s r) \<noteq> None) \<and>
     (\<forall>e \<in> set (b @ ch (events s)). event_wf (next_ref s) e) \<and>
     length (ch (events s)) \<le> depth (events s) \<and>
     \<not> panicked s"

text \<open>The two session tables and the states of the sessions in them.\<close>

definition table_inv :: "'g server \<Rightarrow> bool" where
  "table_inv s \<longleftrightarrow>
     finite (dom (sessions s)) \<and>
     (\<forall>p r. sessions s p = Some r \<longrightarrow> ID (heap s r) = p \<and> authState (heap s r) \<noteq> sessionPreLogin \<and>
        r < next_ref s \<and> sessionToken (heap s r) \<noteq> '''') \<and>
     (\<forall>a r. udpSessions s a = Some r \<longrightarrow> session_udpAddr (heap s r) = Some a \<and>
        authState (heap s r) = sessionReady \<and> sessions s (ID (heap s r)) = Some r) \<and>
     (\<forall>r. sendTCP (heap s r) \<noteq> None \<and> authState (heap s r) \<noteq> sessionPreLogin \<longrightarrow>
        sessions s (ID (heap s r)) = Some r) \<and>
     (\<forall>r. authState (heap s r) = sessionPreLogin \<longrightarrow> ID (heap s r) = 0) \<and>
     (\<forall>r. authState (heap s r) = sessionReady \<longleftrightarrow> session_udpAddr (heap s r) \<noteq> None) \<and>
     (\<forall>r. next_ref s \<le> r \<longrightarrow> authState (heap s r) = sessionPreLogin)"

text \<open>Lifecycle callbacks: each at most once per session, and only in its place.\<close>

definition call_inv :: "'g server \<Rightarrow> bool" where
  "call_inv s \<longleftrightarrow>
     (\<forall>r. disconnects r (calls s) \<le> 1) \<and>
     (\<forall>r. 0 < disconnects r (calls s) \<longrightarrow> sendTCP (heap s r) = None \<and> r < next_ref s) \<and>
     (\<forall>r. connects r (calls s) \<le> 1) \<and>
     (\<forall>r. 0 < connects r (calls s) \<longrightarrow> authState (heap s r) = sessionReady)"

definition srv_inv :: "event list \<Rightarrow> 'g server \<Rightarrow> bool" where
  "srv_inv b s \<longleftrightarrow> chan_inv b s \<and> table_inv s \<and> call_inv s"

section \<open>Counting\<close>

lemma pending_simps [simp]:
  "pending r [] = 0"
  "pending r (e # es) = (if kind e = eventDisconnect \<and> sess e = Some r then 1 else 0) + pending r es"
  "pending r (es @ fs) = pending r es + pending r fs"
  by (simp_all add: pending_def)

lemma disconnects_simps [simp]:
  "disconnects r [] = 0"
  "disconnects r (cs @ ds) = disconnects r cs + disconnects r ds"
  "disconnects r [CallOnDisconnect r' err] = (if r' = r then 1 else 0)"
  "disconnects r [CallOnConnect r'] = 0" "disconnects r [CallOnAuth r'] = 0"
  by (simp_all add: disconnects_def)

lemma connects_simps [simp]:
  "connects r [] = 0"
  "connects r (cs @ ds) = connects r cs + connects r ds"
  "connects r [CallOnDisconnect r' err] = 0"
  "connects r [CallOnConnect r'] = (if r' = r then 1 else 0)" "connects r [CallOnAuth r'] = 0"
  by (simp_all add: connects_def)

lemma dispatch_calls_neutral:
  "list_all dispatch_call cs \<Longrightarrow> disconnects r cs = 0 \<and> connects r cs = 0"
  by (induction cs) (auto simp: disconnects_def connects_def)

lemma pending_scheduled:
  assumes "scheduled s s' es"
  shows "pending r es \<le> 1"
    and "0 < pending r es \<Longrightarrow>
      \<not> fired (disconnectOnce (heap s r)) \<and> fired (disconnectOnce (heap s' r))"
proof -
  from assms have "distinct (map sess es)" by (simp add: scheduled_def)
  then show "pending r es \<le> 1"
  proof (induction es)
    case Nil
    then show ?case by simp
  next
    case (Cons e es)
    have "pending r es = 0" if "sess e = Some r"
      using that Cons.prems by (auto simp: pending_def filter_empty_conv) (metis imageI)
    with Cons show ?case by auto
  qed
next
  assume "0 < pending r es"
  then obtain e where "e \<in> set es" "sess e = Some r"
    by (auto simp: pending_def filter_empty_conv)
  with assms show "\<not> fired (disconnectOnce (heap s r)) \<and> fired (disconnectOnce (heap s' r))"
    unfolding scheduled_def by fastforce
qed

section \<open>Sending keeps the invariant\<close>

lemma chan_invD:
  assumes "chan_inv b s"
  shows chan_inv_chan: "sendTCP (heap s r) = Some k \<Longrightarrow> k = r \<and> r < next_ref s \<and> \<not> is_closed (chans s r)"
    and chan_inv_once: "\<not> fired (disconnectOnce (heap s r)) \<Longrightarrow> sendTCP (heap s r) \<noteq> None"
    and chan_inv_le: "pending r (b @ ch (events s)) \<le> 1"
    and chan_inv_pos: "0 < pending r (b @ ch (events s)) \<Longrightarrow>
      fired (disconnectOnce (heap s r)) \<and> sendTCP (heap s r) \<noteq> None"
    and chan_inv_wf: "e \<in> set (b @ ch (events s)) \<Longrightarrow> event_wf (next_ref s) e"
    and chan_inv_bounded: "queue_bounded s"
    and chan_inv_running: "\<not> panicked s"
  using assms unfolding chan_inv_def queue_bounded_def by blast+

lemma chan_invI:
  assumes "\<And>r k. sendTCP (heap s r) = Some k \<Longrightarrow> k = r \<and> r < next_ref s \<and> \<not> is_closed (chans s r)"
    and "\<And>r. \<not> fired (disconnectOnce (heap s r)) \<Longrightarrow> sendTCP (heap s r) \<noteq> None"
    and "\<And>r. pending r (b @ ch (events s)) \<le> 1"
    and "\<And>r. 0 < pending r (b @ ch (events s)) \<Longrightarrow>
      fired (disconnectOnce (heap s r)) \<and> sendTCP (heap s r) \<noteq> None"
    and "\<And>e. e \<in> set (b @ ch (events s)) \<Longrightarrow> event_wf (next_ref s) e"
    and "queue_bounded s" and "\<not> panicked s"
  shows "chan_inv b s"
  using assms unfolding chan_inv_def queue_bounded_def by blast

lemma chan_inv_safe: "chan_inv b s \<Longrightarrow> chan_safe s"
  unfolding chan_safe_def using chan_inv_chan by blast

lemma chan_inv_allocated:
  "chan_inv b s \<Longrightarrow> \<not> fired (disconnectOnce (heap s r)) \<Longrightarrow> r < next_ref s"
  using chan_inv_once chan_inv_chan by blast

lemma chan_inv_none_pending:
  "chan_inv b s \<Longrightarrow> \<not> fired (disconnectOnce (heap s r)) \<Longrightarrow> pending r (b @ ch (events s)) = 0"
  using chan_inv_pos by blast

lemma event_wf_disconnect [simp]: "event_wf n (disconnect_event r err) \<longleftrightarrow> r < n"
  by (simp add: event_wf_def)

lemma event_wf_mono: "event_wf n e \<Longrightarrow> n \<le> m \<Longrightarrow> event_wf m e"
  by (auto simp: event_wf_def split: eventKind.splits if_splits option.splits)

lemma chan_inv_sends:
  assumes inv: "chan_inv b s" and s: "sends s s'"
  shows "chan_inv b s'"
proof (rule chan_invI)
  obtain es where es: "ch (events s') = ch (events s) @ es" "scheduled s s' es"
    using sends_events [OF s] by blast
  note core = sends_core [OF s] sends_static [OF s]
  have split: "pending r (b @ ch (events s')) = pending r (b @ ch (events s)) + pending r es" for r
    by (simp add: es(1))
  have fresh: "\<not> fired (disconnectOnce (heap s r)) \<and> fired (disconnectOnce (heap s' r)) \<and>
      pending r (b @ ch (events s)) = 0" if "pending r es \<noteq> 0" for r
    using that pending_scheduled(2) [OF es(2)] chan_inv_none_pending [OF inv] by blast
  show "pending r (b @ ch (events s')) \<le> 1" for r
    using fresh [of r] pending_scheduled(1) [OF es(2), of r] chan_inv_le [OF inv, of r]
    unfolding split by (cases "pending r es") simp_all
  show "fired (disconnectOnce (heap s' r)) \<and> sendTCP (heap s' r) \<noteq> None"
    if "0 < pending r (b @ ch (events s'))" for r
  proof (cases "pending r es = 0")
    case True
    with that have "0 < pending r (b @ ch (events s))" by (simp only: split)
    then show ?thesis
      using chan_inv_pos [OF inv] sends_fired [OF s] unfolding core by blast
  next
    case False
    then show ?thesis using fresh chan_inv_once [OF inv] unfolding core by blast
  qed
  show "event_wf (next_ref s') e" if "e \<in> set (b @ ch (events s'))" for e
  proof (cases "e \<in> set es")
    case True
    with es(2) obtain r err where "e = disconnect_event r err"
        "\<not> fired (disconnectOnce (heap s r))"
      unfolding scheduled_def by blast
    then show ?thesis using chan_inv_allocated [OF inv] by (simp add: core)
  next
    case False
    with that es(1) show ?thesis using chan_inv_wf [OF inv] by (auto simp: core)
  qed
  show "k = r \<and> r < next_ref s' \<and> \<not> is_closed (chans s' r)" if "sendTCP (heap s' r) = Some k" for r k
    using that chan_inv_chan [OF inv] unfolding core by blast
  show "sendTCP (heap s' r) \<noteq> None" if "\<not> fired (disconnectOnce (heap s' r))" for r
    using that chan_inv_once [OF inv] sends_fired [OF s] unfolding core by blast
  show "queue_bounded s'" "\<not> panicked s'"
    using chan_inv_bounded [OF inv] chan_inv_running [OF inv]
      sends_queue_bounded [OF s] sends_panicked [OF s chan_inv_safe [OF inv]] by simp_all
qed

lemma table_inv_sends: "table_inv s \<Longrightarrow> sends s s' \<Longrightarrow> table_inv s'"
  by (simp add: table_inv_def sends_static(1-3) sends_core)

lemma call_inv_sends:
  assumes "call_inv s" and s: "sends s s'"
  shows "call_inv s'"
proof -
  obtain cs where "calls s' = calls s @ cs" "list_all dispatch_call cs"
    using sends_calls [OF s] by blast
  with assms(1) show ?thesis
    by (simp add: call_inv_def dispatch_calls_neutral sends_core [OF s] sends_static(3) [OF s])
qed

lemma srv_inv_sends: "srv_inv b s \<Longrightarrow> sends s s' \<Longrightarrow> srv_inv b s'"
  unfolding srv_inv_def using chan_inv_sends table_inv_sends call_inv_sends by blast

section \<open>Login and pairing\<close>

lemma table_invD:
  assumes "table_inv s"
  shows table_inv_finite: "finite (dom (sessions s))"
    and table_inv_entry: "sessions s p = Some r \<Longrightarrow> ID (heap s r) = p \<and>
      authState (heap s r) \<noteq> sessionPreLogin \<and> r < next_ref s \<and> sessionToken (heap s r) \<noteq> ''''"
    and table_inv_udp: "udpSessions s a = Some r \<Longrightarrow> session_udpAddr (heap s r) = Some a \<and>
      authState (heap s r) = sessionReady \<and> sessions s (ID (heap s r)) = Some r"
    and table_inv_live: "sendTCP (heap s r) \<noteq> None \<Longrightarrow> authState (heap s r) \<noteq> sessionPreLogin \<Longrightarrow>
      sessions s (ID (heap s r)) = Some r"
    and table_inv_prelogin: "authState (heap s r) = sessionPreLogin \<Longrightarrow> ID (heap s r) = 0"
    and table_inv_ready: "authState (heap s r) = sessionReady \<longleftrightarrow> session_udpAddr (heap s r) \<noteq> None"
    and table_inv_fresh: "next_ref s \<le> r \<Longrightarrow> authState (heap s r) = sessionPreLogin"
  using assms unfolding table_inv_def by blast+

lemma table_invI:
  assumes "finite (dom (sessions s))"
    and "\<And>p r. sessions s p = Some r \<Longrightarrow> ID (heap s r) = p \<and>
      authState (heap s r) \<noteq> sessionPreLogin \<and> r < next_ref s \<and> sessionToken (heap s r) \<noteq> ''''"
    and "\<And>a r. udpSessions s a = Some r \<Longrightarrow> session_udpAddr (heap s r) = Some a \<and>
      authState (heap s r) = sessionReady \<and> sessions s (ID (heap s r)) = Some r"
    and "\<And>r. sendTCP (heap s r) \<noteq> None \<Longrightarrow> authState (heap s r) \<noteq> sessionPreLogin \<Longrightarrow>
      sessions s (ID (heap s r)) = Some r"
    and "\<And>r. authState (heap s r) = sessionPreLogin \<Longrightarrow> ID (heap s r) = 0"
    and "\<And>r. authState (heap s r) = sessionReady \<longleftrightarrow> session_udpAddr (heap s r) \<noteq> None"
    and "\<And>r. next_ref s \<le> r \<Longrightarrow> authState (heap s r) = sessionPreLogin"
  shows "table_inv s"
  using assms unfolding table_inv_def by blast

lemma register_session_simps [simp]:
  "events (register_session r p t s) = events s" "chans (register_session r p t s) = chans s"
  "conns (register_session r p t s) = conns s" "next_ref (register_session r p t s) = next_ref s"
  "calls (register_session r p t s) = calls s" "panicked (register_session r p t s) = panicked s"
  "udpSessions (register_session r p t s) = udpSessions s"
  "sessions (register_session r p t s) = (sessions s)(p \<mapsto> r)"
  "heap (register_session r p t s) =
     (heap s)(r := (heap s r)\<lparr>ID := p, sessionToken := t, authState := sessionAwaitingUDP\<rparr>)"
  by (simp_all add: register_session_def Let_def fun_eq_iff)

lemma pair_session_simps [simp]:
  "events (pair_session r a t s) = events s" "chans (pair_session r a t s) = chans s"
  "conns (pair_session r a t s) = conns s" "next_ref (pair_session r a t s) = next_ref s"
  "calls (pair_session r a t s) = calls s" "panicked (pair_session r a t s) = panicked s"
  "udpSessions (pair_session r a t s) = (udpSessions s)(a \<mapsto> r)"
  "sessions (pair_session r a t s) = sessions s"
  "heap (pair_session r a t s) =
     (heap s)(r := (heap s r)\<lparr>session_udpAddr := Some a, authState := sessionReady,
                              lastSeenUnixNano := time_UnixNano t\<rparr>)"
  by (simp_all add: pair_session_def Let_def fun_eq_iff)

text \<open>
  The channel invariant mentions of a session only its channel and its flag.
\<close>

lemma chan_inv_cong:
  assumes "chan_inv b s" "events s' = events s" "chans s' = chans s" "next_ref s' = next_ref s"
    and "panicked s' = panicked s"
    and "\<And>r. sendTCP (heap s' r) = sendTCP (heap s r)"
    and "\<And>r. disconnectOnce (heap s' r) = disconnectOnce (heap s r)"
  shows "chan_inv b s'"
  using assms unfolding chan_inv_def by simp

lemma chan_inv_register: "chan_inv b s \<Longrightarrow> chan_inv b (register_session r p t s)"
  by (rule chan_inv_cong) auto

lemma chan_inv_pair: "chan_inv b s \<Longrightarrow> chan_inv b (pair_session r a t s)"
  by (rule chan_inv_cong) auto

lemma chan_inv_record: "chan_inv b s \<Longrightarrow> chan_inv b (record_call c g s)"
  by (rule chan_inv_cong) simp_all

lemma table_inv_cong:
  assumes "table_inv s" "sessions s' = sessions s" "udpSessions s' = udpSessions s"
    and "next_ref s' = next_ref s" "heap s' = heap s"
  shows "table_inv s'"
  using assms unfolding table_inv_def by simp

lemma table_inv_record: "table_inv s \<Longrightarrow> table_inv (record_call c g s)"
  by (rule table_inv_cong) simp_all

lemma table_inv_register:
  assumes inv: "table_inv s" and pre: "authState (heap s r) = sessionPreLogin"
    and free: "sessions s p = None" and r: "r < next_ref s" and t: "t \<noteq> ''''"
  shows "table_inv (register_session r p t s)" (is "table_inv ?s")
proof (rule table_invI)
  have no_udp: "udpSessions s a \<noteq> Some r" for a
    using table_inv_udp [OF inv, of a r] pre by auto
  have no_entry: "sessions s q \<noteq> Some r" for q
    using table_inv_entry [OF inv, of q r] pre by auto
  show "finite (dom (sessions ?s))"
    using table_inv_finite [OF inv] by simp
  show "ID (heap ?s r') = q \<and> authState (heap ?s r') \<noteq> sessionPreLogin \<and> r' < next_ref ?s \<and>
      sessionToken (heap ?s r') \<noteq> ''''" if "sessions ?s q = Some r'" for q r'
    using that table_inv_entry [OF inv, of q r'] no_entry [of q] r t by (auto split: if_splits)
  show "session_udpAddr (heap ?s r') = Some a \<and> authState (heap ?s r') = sessionReady \<and>
      sessions ?s (ID (heap ?s r')) = Some r'" if "udpSessions ?s a = Some r'" for a r'
    using that table_inv_udp [OF inv, of a r'] no_udp [of a] free by auto
  show "sessions ?s (ID (heap ?s r')) = Some r'"
    if "sendTCP (heap ?s r') \<noteq> None" "authState (heap ?s r') \<noteq> sessionPreLogin" for r'
    using that table_inv_live [OF inv, of r'] free by (auto split: if_splits)
  show "ID (heap ?s r') = 0" if "authState (heap ?s r') = sessionPreLogin" for r'
    using that table_inv_prelogin [OF inv, of r'] by (auto split: if_splits)
  show "authState (heap ?s r') = sessionReady \<longleftrightarrow> session_udpAddr (heap ?s r') \<noteq> None" for r'
    using table_inv_ready [OF inv, of r'] pre by auto
  show "authState (heap ?s r') = sessionPreLogin" if "next_ref ?s \<le> r'" for r'
    using that table_inv_fresh [OF inv, of r'] r by auto
qed

lemma table_inv_pair:
  assumes inv: "table_inv s" and entry: "sessions s p = Some r"
    and await: "authState (heap s r) = sessionAwaitingUDP"
  shows "table_inv (pair_session r a t s)" (is "table_inv ?s")
proof (rule table_invI)
  have no_udp: "udpSessions s a' \<noteq> Some r" for a'
    using table_inv_udp [OF inv, of a' r] await by auto
  note r = table_inv_entry [OF inv entry]
  show "finite (dom (sessions ?s))"
    using table_inv_finite [OF inv] by simp
  show "ID (heap ?s r') = q \<and> authState (heap ?s r') \<noteq> sessionPreLogin \<and> r' < next_ref ?s \<and>
      sessionToken (heap ?s r') \<noteq> ''''" if "sessions ?s q = Some r'" for q r'
    using that table_inv_entry [OF inv, of q r'] by auto
  show "session_udpAddr (heap ?s r') = Some a' \<and> authState (heap ?s r') = sessionReady \<and>
      sessions ?s (ID (heap ?s r')) = Some r'" if "udpSessions ?s a' = Some r'" for a' r'
    using that table_inv_udp [OF inv, of a' r'] no_udp [of a'] entry r by (auto split: if_splits)
  show "sessions ?s (ID (heap ?s r')) = Some r'"
    if "sendTCP (heap ?s r') \<noteq> None" "authState (heap ?s r') \<noteq> sessionPreLogin" for r'
    using that table_inv_live [OF inv, of r'] entry r by (auto split: if_splits)
  show "ID (heap ?s r') = 0" if "authState (heap ?s r') = sessionPreLogin" for r'
    using that table_inv_prelogin [OF inv, of r'] by (auto split: if_splits)
  show "authState (heap ?s r') = sessionReady \<longleftrightarrow> session_udpAddr (heap ?s r') \<noteq> None" for r'
    using table_inv_ready [OF inv, of r'] by auto
  show "authState (heap ?s r') = sessionPreLogin" if "next_ref ?s \<le> r'" for r'
    using that table_inv_fresh [OF inv, of r'] r by auto
qed

lemma call_invD:
  assumes "call_inv s"
  shows call_inv_disc_le: "disconnects r (calls s) \<le> 1"
    and call_inv_disc: "0 < disconnects r (calls s) \<Longrightarrow> sendTCP (heap s r) = None \<and> r < next_ref s"
    and call_inv_conn_le: "connects r (calls s) \<le> 1"
    and call_inv_conn: "0 < connects r (calls s) \<Longrightarrow> authState (heap s r) = sessionReady"
  using assms unfolding call_inv_def by blast+

lemma call_invI:
  assumes "\<And>r. disconnects r (calls s) \<le> 1"
    and "\<And>r. 0 < disconnects r (calls s) \<Longrightarrow> sendTCP (heap s r) = None \<and> r < next_ref s"
    and "\<And>r. connects r (calls s) \<le> 1"
    and "\<And>r. 0 < connects r (calls s) \<Longrightarrow> authState (heap s r) = sessionReady"
  shows "call_inv s"
  using assms unfolding call_inv_def by blast

lemma call_inv_register:
  assumes "call_inv s" "authState (heap s r) = sessionPreLogin"
  shows "call_inv (register_session r p t s)"
  using call_invD [OF assms(1)] assms(2) by (intro call_invI) (fastforce split: if_splits)+

lemma call_inv_pair:
  assumes "call_inv s"
  shows "call_inv (pair_session r a t s)"
  using call_invD [OF assms] by (intro call_invI) (auto split: if_splits)

lemma call_inv_auth: "call_inv s \<Longrightarrow> call_inv (record_call (CallOnAuth r) g s)"
  by (simp add: call_inv_def)

text \<open>
  The one place where \<open>OnConnect\<close> is called: the session has just left
  \<open>sessionAwaitingUDP\<close>, so it was not called before.
\<close>

lemma call_inv_connect:
  assumes "call_inv s" "connects r (calls s) = 0" "authState (heap s r) = sessionReady"
  shows "call_inv (record_call (CallOnConnect r) g s)"
  using call_invD [OF assms(1)] assms(2,3) by (intro call_invI) (auto split: if_splits)

lemma generateSessionToken_nonempty:
  assumes "env_ok E" "generateSessionToken E s = (t, s')"
  shows "t \<noteq> ''''"
proof (cases "rand_Read E (draws s) 16")
  case None
  with assms(2) show ?thesis by (auto simp: generateSessionToken_def)
next
  case (Some b)
  with assms(1) have "length b = 16" by (simp add: env_ok_def)
  then obtain x y z rest where "b = x # y # z # rest"
    by (auto simp: numeral_eq_Suc length_Suc_conv)
  with Some assms(2) show ?thesis by (auto simp: generateSessionToken_def)
qed

lemma srv_inv_handleLogin:
  assumes E: "env_ok E" and inv: "srv_inv b s"
    and pre: "authState (heap s r) = sessionPreLogin" and r: "r < next_ref s"
  shows "srv_inv b (handleLogin E tc r lm s)"
proof (cases rule: handleLogin_cases [of s E tc r lm])
  case rejected
  then show ?thesis by (rule srv_inv_sends [OF inv])
next
  case (accepted playerID token s1 s2 s4)
  from srv_inv_sends [OF inv accepted(1)] have inv2: "srv_inv b s2" .
  note at2 = sends_core [OF accepted(1)] sends_static [OF accepted(1)]
  have "token \<noteq> ''''" by (rule generateSessionToken_nonempty [OF E accepted(5)])
  with inv2 pre r accepted(2) have "srv_inv b (register_session r playerID token s2)"
    unfolding srv_inv_def
    by (intro conjI chan_inv_register table_inv_register call_inv_register) (simp_all add: at2)
  with accepted(3) have "srv_inv b s4"
    unfolding srv_inv_def by (auto intro: chan_inv_record table_inv_record call_inv_auth)
  then show ?thesis using accepted(4) by (rule srv_inv_sends)
qed

lemma srv_inv_handleUDPHandshake:
  assumes inv: "srv_inv b s"
  shows "srv_inv b (handleUDPHandshake E tc a hs s)"
proof (cases rule: handleUDPHandshake_cases [of s E tc a hs])
  case rejected
  then show ?thesis by (rule srv_inv_sends [OF inv])
next
  case (accepted r t s1 s2)
  have inv0: "srv_inv b (draw s)" by (rule srv_inv_sends [OF inv sends_draw])
  have "srv_inv b s1"
    using inv0 accepted(1,3) unfolding srv_inv_def accepted(4)
    by (intro conjI chan_inv_pair table_inv_pair call_inv_pair) simp_all
  then have inv2: "srv_inv b s2" by (rule srv_inv_sends [OF _ accepted(5)])
  have ready: "authState (heap s2 r) = sessionReady"
    by (simp add: sends_core [OF accepted(5)] accepted(4))
  have "connects r (calls s) = 0"
    using inv call_inv_conn [of s r] accepted(3) unfolding srv_inv_def by fastforce
  then have "connects r (calls s2) = 0"
    using sends_calls [OF accepted(5)] dispatch_calls_neutral accepted(4) by fastforce
  with inv2 ready have "srv_inv b (record_call (CallOnConnect r) g s2)" for g
    unfolding srv_inv_def by (blast intro: chan_inv_record table_inv_record call_inv_connect)
  with accepted(6) inv2 show ?thesis by auto
qed

section \<open>Cleanup\<close>

text \<open>
  The state of \<open>cleanupSession\<close> before the callback, for a session that still has its
  channel.
\<close>

definition unlinked :: "sref \<Rightarrow> 'g server \<Rightarrow> 'g server" where
  "unlinked r s = s\<lparr>
     sessions := (if ID (heap s r) \<noteq> 0 then (sessions s)(ID (heap s r) := None) else sessions s),
     udpSessions := (case session_udpAddr (heap s r) of
        None \<Rightarrow> udpSessions s | Some a \<Rightarrow> (udpSessions s)(a := None)),
     conns := (case tcp (heap s r) of
        None \<Rightarrow> conns s | Some k \<Rightarrow> (conns s)(k := (conns s k)\<lparr>c_closed := True\<rparr>)),
     chans := (chans s)(r := (chans s r)\<lparr>is_closed := True\<rparr>),
     heap := (heap s)(r := (heap s r)\<lparr>sendTCP := None\<rparr>)\<rparr>"

lemma cleanupSession_unlinked:
  assumes "sendTCP (heap s r) = Some r" "\<not> is_closed (chans s r)"
  shows "cleanupSession E (Some r) err s =
    (case OnDisconnect (cfg E) of
       None \<Rightarrow> unlinked r s
     | Some cb \<Rightarrow> record_call (CallOnDisconnect r err) (fst (cb r err (unlinked r s))) (unlinked r s))"
  using assms
  by (cases "session_udpAddr (heap s r)"; cases "tcp (heap s r)"; cases "OnDisconnect (cfg E)")
    (simp_all add: cleanupSession_def unlinked_def Let_def close_conn_def close_chan_def upd_sess_def
      invoke_eq)

lemma unlinked_simps [simp]:
  "events (unlinked r s) = events s" "next_ref (unlinked r s) = next_ref s"
  "calls (unlinked r s) = calls s" "panicked (unlinked r s) = panicked s"
  "heap (unlinked r s) = (heap s)(r := (heap s r)\<lparr>sendTCP := None\<rparr>)"
  "chans (unlinked r s) = (chans s)(r := (chans s r)\<lparr>is_closed := True\<rparr>)"
  by (simp_all add: unlinked_def)

lemma sessions_unlinked:
  "sessions (unlinked r s) p = (if ID (heap s r) \<noteq> 0 \<and> p = ID (heap s r) then None else sessions s p)"
  by (simp add: unlinked_def)

lemma udpSessions_unlinked:
  "udpSessions (unlinked r s) a =
    (if session_udpAddr (heap s r) = Some a then None else udpSessions s a)"
  by (simp add: unlinked_def split: option.splits)

lemma chan_inv_unlinked:
  assumes inv: "chan_inv (e # b) s" and e: "kind e = eventDisconnect" "sess e = Some r"
  shows "chan_inv b (unlinked r s)"
proof (rule chan_invI)
  have one: "pending r (b @ ch (events s)) = 0"
    using chan_inv_le [OF inv, of r] e by simp
  have fired: "fired (disconnectOnce (heap s r))"
    using chan_inv_pos [OF inv, of r] e by simp
  show "k = r' \<and> r' < next_ref (unlinked r s) \<and> \<not> is_closed (chans (unlinked r s) r')"
    if "sendTCP (heap (unlinked r s) r') = Some k" for r' k
    using that chan_inv_chan [OF inv, of r' k] by (auto split: if_splits)
  show "sendTCP (heap (unlinked r s) r') \<noteq> None"
    if "\<not> fired (disconnectOnce (heap (unlinked r s) r'))" for r'
    using that fired chan_inv_once [OF inv, of r'] by (auto split: if_splits)
  show "pending r' (b @ ch (events (unlinked r s))) \<le> 1" for r'
    using chan_inv_le [OF inv, of r'] by simp
  show "fired (disconnectOnce (heap (unlinked r s) r')) \<and> sendTCP (heap (unlinked r s) r') \<noteq> None"
    if "0 < pending r' (b @ ch (events (unlinked r s)))" for r'
    using that one chan_inv_pos [OF inv, of r'] by auto
  show "event_wf (next_ref (unlinked r s)) e'" if "e' \<in> set (b @ ch (events (unlinked r s)))" for e'
    using that chan_inv_wf [OF inv, of e'] by auto
  show "queue_bounded (unlinked r s)" "\<not> panicked (unlinked r s)"
    using chan_inv_bounded [OF inv] chan_inv_running [OF inv] by (simp_all add: queue_bounded_def)
qed

text \<open>
  The session that is cleaned up still owns its entry of the table, so no other session
  loses one.
\<close>

lemma table_inv_unlinked:
  assumes inv: "table_inv s" and live: "sendTCP (heap s r) \<noteq> None"
  shows "table_inv (unlinked r s)" (is "table_inv ?s")
proof (rule table_invI)
  have own: "sessions s (ID (heap s r)) = Some r" if "ID (heap s r) \<noteq> 0"
    using that live table_inv_live [OF inv] table_inv_prelogin [OF inv] by blast
  have other: "sessions ?s p = Some r'" if "sessions s p = Some r'" "r' \<noteq> r" for p r'
    using that own by (auto simp: sessions_unlinked)
  have sub: "sessions s p = Some r'" if "sessions ?s p = Some r'" for p r'
    using that by (simp add: sessions_unlinked split: if_splits)
  have "dom (sessions ?s) \<subseteq> dom (sessions s)" using sub by blast
  then show "finite (dom (sessions ?s))"
    using table_inv_finite [OF inv] by (rule finite_subset)
  show "ID (heap ?s r') = p \<and> authState (heap ?s r') \<noteq> sessionPreLogin \<and> r' < next_ref ?s \<and>
      sessionToken (heap ?s r') \<noteq> ''''" if "sessions ?s p = Some r'" for p r'
    using table_inv_entry [OF inv sub [OF that]] by (cases "r' = r") simp_all
  show "session_udpAddr (heap ?s r') = Some a \<and> authState (heap ?s r') = sessionReady \<and>
      sessions ?s (ID (heap ?s r')) = Some r'" if "udpSessions ?s a = Some r'" for a r'
  proof -
    from that have u: "udpSessions s a = Some r'" "session_udpAddr (heap s r) \<noteq> Some a"
      by (simp_all add: udpSessions_unlinked split: if_splits)
    then have "r' \<noteq> r" using table_inv_udp [OF inv u(1)] by auto
    then show ?thesis using table_inv_udp [OF inv u(1)] other by simp
  qed
  show "sessions ?s (ID (heap ?s r')) = Some r'"
    if "sendTCP (heap ?s r') \<noteq> None" "authState (heap ?s r') \<noteq> sessionPreLogin" for r'
    using that table_inv_live [OF inv, of r'] other by (auto split: if_splits)
  show "ID (heap ?s r') = 0" if "authState (heap ?s r') = sessionPreLogin" for r'
    using that table_inv_prelogin [OF inv, of r'] by (auto split: if_splits)
  show "authState (heap ?s r') = sessionReady \<longleftrightarrow> session_udpAddr (heap ?s r') \<noteq> None" for r'
    using table_inv_ready [OF inv, of r'] by auto
  show "authState (heap ?s r') = sessionPreLogin" if "next_ref ?s \<le> r'" for r'
    using that table_inv_fresh [OF inv, of r'] by auto
qed

lemma call_inv_unlinked: "call_inv s \<Longrightarrow> call_inv (unlinked r s)"
  using call_invD [of s] by (intro call_invI) (auto split: if_splits)

lemma call_inv_disconnect:
  assumes "call_inv s" "disconnects r (calls s) = 0" "sendTCP (heap s r) = None" "r < next_ref s"
  shows "call_inv (record_call (CallOnDisconnect r err) g s)"
  using call_invD [OF assms(1)] assms(2-4) by (intro call_invI) (auto split: if_splits)

lemma srv_inv_cleanup:
  assumes inv: "srv_inv (e # b) s" and e: "kind e = eventDisconnect" "sess e = Some r"
  shows "srv_inv b (cleanupSession E (Some r) (reason e) s)"
proof -
  from inv have c: "chan_inv (e # b) s" and t: "table_inv s" and l: "call_inv s"
    by (simp_all add: srv_inv_def)
  have live: "sendTCP (heap s r) \<noteq> None"
    using chan_inv_pos [OF c, of r] e by simp
  then obtain k where "sendTCP (heap s r) = Some k" by blast
  with chan_inv_chan [OF c] have r: "sendTCP (heap s r) = Some r" "\<not> is_closed (chans s r)" "r < next_ref s"
    by blast+
  have u: "srv_inv b (unlinked r s)"
    unfolding srv_inv_def
    using chan_inv_unlinked [OF c e] table_inv_unlinked [OF t live] call_inv_unlinked [OF l] by blast
  have "disconnects r (calls s) = 0"
    using call_inv_disc [OF l, of r] live by blast
  with u r(3) have "srv_inv b (record_call (CallOnDisconnect r err) g (unlinked r s))" for err g
    unfolding srv_inv_def
    by (auto intro!: chan_inv_record table_inv_record call_inv_disconnect)
  with u show ?thesis
    by (simp add: cleanupSession_unlinked [OF r(1,2)] split: option.split)
qed

section \<open>One event, one tick\<close>

lemma srv_inv_tail:
  assumes inv: "srv_inv (e # b) s" and e: "kind e \<noteq> eventDisconnect"
  shows "srv_inv b s"
proof -
  from inv have c: "chan_inv (e # b) s" by (simp add: srv_inv_def)
  have "chan_inv b s"
    by (rule chan_invI)
      (use chan_invD [OF c] e in \<open>auto simp: queue_bounded_def\<close>)
  with inv show ?thesis by (simp add: srv_inv_def)
qed

lemma srv_inv_route:
  assumes E: "env_ok E" and inv: "srv_inv b s"
    and se: "\<And>r. se = Some r \<Longrightarrow> r < next_ref s" and addr: "isUDP e \<Longrightarrow> event_udpAddr e \<noteq> None"
  shows "srv_inv b (route_body E tc e se body s)"
proof -
  have keep: "srv_inv b s'" if "sends s s'" for s'
    by (rule srv_inv_sends [OF inv that])
  show ?thesis
    using srv_inv_handleLogin [OF E inv] srv_inv_handleUDPHandshake [OF inv] se addr inv
      keep [OF sends_handlePong] keep [OF sends_dispatchUserMessage] keep [OF sends_dispatchRPC]
    by (auto simp: route_body_def split: option.split client_body.split)
qed

lemma srv_inv_dispatchMessage:
  assumes E: "env_ok E" and inv: "srv_inv b s" and e: "event_wf (next_ref s) e" "kind e = eventMessage"
  shows "srv_inv b (dispatchMessage E tc e s)"
proof -
  from inv have t: "table_inv s" by (simp add: srv_inv_def)
  obtain se s1 where rs: "resolve_session tc e s = (se, s1)" by fastforce
  have addr: "isUDP e \<Longrightarrow> event_udpAddr e \<noteq> None"
    using e by (simp add: event_wf_def)
  then have s1: "sends s s1" using sends_resolve [of e s tc] rs by auto
  have se: "r < next_ref s1" if "se = Some r" for r
  proof (cases "isUDP e")
    case True
    with rs that obtain a where "udpSessions s a = Some r"
      by (auto simp: resolve_session_def split: option.splits)
    then show ?thesis
      using table_inv_udp [OF t] table_inv_entry [OF t] sends_static(3) [OF s1] by metis
  next
    case False
    with rs that e show ?thesis
      by (auto simp: resolve_session_def event_wf_def split: option.splits)
  qed
  have inv1: "srv_inv b s1" by (rule srv_inv_sends [OF inv s1])
  show ?thesis
    using inv1 srv_inv_route [OF E inv1 se addr] srv_inv_sends [OF inv1 sends_scheduleDisconnect]
    by (auto simp: dispatchMessage_def rs split: sum.split)
qed

lemma srv_inv_handleEvent:
  assumes E: "env_ok E" and inv: "srv_inv (e # b) s"
  shows "srv_inv b (handleEvent E tc e s)"
proof -
  have wf: "event_wf (next_ref s) e"
    using inv chan_inv_wf [of "e # b" s e] by (simp add: srv_inv_def)
  show ?thesis
  proof (cases "kind e")
    case eventMessage
    then show ?thesis
      using srv_inv_dispatchMessage [OF E srv_inv_tail [OF inv] wf] by (simp add: handleEvent_def)
  next
    case eventConnect
    with wf show ?thesis by (simp add: event_wf_def)
  next
    case eventDisconnect
    with wf obtain r where "sess e = Some r"
      by (auto simp: event_wf_def split: option.splits)
    with eventDisconnect show ?thesis
      by (simp add: handleEvent_def srv_inv_cleanup [OF inv])
  qed
qed

lemma srv_inv_batch:
  assumes E: "env_ok E"
  shows "srv_inv (evs @ b) s \<Longrightarrow> srv_inv b (fold (handleEvent E tc) evs s)"
proof (induction evs arbitrary: s)
  case Nil
  then show ?case by simp
next
  case (Cons e evs)
  then have "srv_inv (evs @ b) (handleEvent E tc e s)"
    using srv_inv_handleEvent [OF E] by simp
  then show ?case using Cons.IH by simp
qed

lemma srv_inv_tick_start:
  assumes "srv_inv [] s" "tick_start t s = (tc, evs, s1)"
  shows "srv_inv evs s1"
  using assms
  by (auto simp: tick_start_def drain_eq srv_inv_def chan_inv_def table_inv_def call_inv_def)

lemma srv_inv_tick_finish: "srv_inv b s \<Longrightarrow> srv_inv b (tick_finish E tc s)"
  by (rule srv_inv_sends [OF _ sends_tick_finish])

lemma srv_inv_run_tick:
  assumes "env_ok E" "srv_inv [] s"
  shows "srv_inv [] (run_tick E t s)"
proof -
  obtain tc evs s1 where ts: "tick_start t s = (tc, evs, s1)" by (metis prod_cases3)
  have "srv_inv (evs @ []) s1"
    using srv_inv_tick_start [OF assms(2) ts] by simp
  from srv_inv_batch [OF assms(1) this] show ?thesis
    by (simp add: run_tick_def ts srv_inv_tick_finish)
qed

end

