(* ===== verification/Tcp.thy ===== *)
theory Tcp
  imports Frame Invariant
begin

text \<open>
  \<open>tcp.go\<close> and the reading half of \<open>udp.go\<close>: the I/O goroutines, one iteration of each
  loop at a time. A blocked \<open>Read\<close> is a step that is not enabled (\<open>frame_ready\<close>).
\<close>

section \<open>Connections as byte streams\<close>

definition conn_Write :: "conn write_op" where
  "conn_Write p c =
     (if c_closed c then (c, Some (Sentinel NetErrClosed)) else (c\<lparr>c_out := c_out c @ p\<rparr>, None))"

interpretation tcp_sink: byte_sink conn_Write c_out
proof
  show "c_out w' = c_out w @ p" if "conn_Write p w = (w', None)" for p w w'
    using that by (auto simp: conn_Write_def split: if_splits)
  show "\<exists>n. c_out w' = c_out w @ take n p" if "conn_Write p w = (w', Some e)" for p w w' e
    using that by (auto simp: conn_Write_def split: if_splits intro: exI [of _ 0])
qed

text \<open>
  What a reader of the connection sees: after a local \<open>Close\<close> every read fails with
  \<open>net.ErrClosed\<close>; else the bytes that arrived, then the way the peer ended. While the peer
  has not ended, \<open>frame_ready\<close> makes sure that the end is not looked at.
\<close>

definition conn_stream :: "conn \<Rightarrow> instream" where
  "conn_stream c =
     (if c_closed c then \<lparr>avail = [], stop = Sentinel NetErrClosed\<rparr>
      else \<lparr>avail = c_in c, stop = (case c_end c of None \<Rightarrow> Sentinel EOF | Some e \<Rightarrow> e)\<rparr>)"

definition frame_decided :: "u32 \<Rightarrow> bytes \<Rightarrow> bool" where
  "frame_decided maxLen b \<longleftrightarrow>
     4 \<le> length b \<and>
     (let n = be_Uint32 (take 4 b) in
      (maxLen \<noteq> 0 \<and> n > maxLen) \<or> 4 + unat n \<le> length b)"

definition frame_ready :: "u32 \<Rightarrow> conn \<Rightarrow> bool" where
  "frame_ready maxLen c \<longleftrightarrow> c_closed c \<or> c_end c \<noteq> None \<or> frame_decided maxLen (c_in c)"

definition isCleanCloseErr :: "goerr \<Rightarrow> bool" where
  "isCleanCloseErr err \<longleftrightarrow>
     errors_is err EOF \<or> errors_is err ErrUnexpectedEOF \<or> errors_is err NetErrClosed"

section \<open>Serving a connection\<close>

text \<open>
  \<open>serveTCPConn\<close> up to the start of the two goroutines: the session object, its channel and
  its connection get one fresh address.
\<close>

definition serveTCPConn_start :: "('m, 'g) env \<Rightarrow> addr \<Rightarrow> int \<Rightarrow> 'g server \<Rightarrow> sref \<times> 'g server" where
  "serveTCPConn_start E remote t s =
     (let r = next_ref s in
      (r, s\<lparr>heap := (heap s)(r := session_zero\<lparr>tcp := Some r, sendTCP := Some r, ConnectedAt := t\<rparr>),
            chans := (chans s)(r := chan_zero\<lparr>cap := nat (SendQueueDepth (cfg E))\<rparr>),
            conns := (conns s)(r := conn_zero\<lparr>c_remote := remote\<rparr>),
            next_ref := Suc r\<rparr>))"

text \<open>
  The reader's way to report its end: the pushed event may be lost to a full queue, the
  flag is spent in any case.
\<close>

definition reader_disconnect :: "sref \<Rightarrow> goerr \<Rightarrow> 'g server \<Rightarrow> 'g server" where
  "reader_disconnect r err s =
     (let (w, runs) = once_Do (disconnectOnce (heap s r));
          s1 = upd_sess r (\<lambda>x. x\<lparr>disconnectOnce := w\<rparr>) s
      in if runs then s1\<lparr>events := fst (push (disconnect_event r err) (events s1))\<rparr> else s1)"

text \<open>One iteration of \<open>runTCPReader\<close>, and whether the loop goes on.\<close>

definition reader_iter :: "('m, 'g) env \<Rightarrow> sref \<Rightarrow> 'g server \<Rightarrow> bool \<times> 'g server" where
  "reader_iter E r s =
     (case tcp (heap s r) of
        None \<Rightarrow> (False, s\<lparr>panicked := True\<rparr>)
      | Some k \<Rightarrow>
          (case ReadFrame (conn_stream (conns s k)) (MaxFrameLen (cfg E)) of
             (res, st) \<Rightarrow>
               (let s1 = s\<lparr>conns := (conns s)(k := (conns s k)\<lparr>c_in := avail st\<rparr>)\<rparr> in
                case res of
                  Inl err \<Rightarrow> (False, reader_disconnect r err s1)
                | Inr p \<Rightarrow>
                    (let (q, ok) = push (tcp_message r p) (events s1) in
                     if ok then (True, s1\<lparr>events := q\<rparr>)
                     else (False, reader_disconnect r (Sentinel ErrOutboundQueueFull) s1)))))"

text \<open>
  \<open>runTCPWriter\<close>: about to evaluate \<open>sess.sendTCP\<close>, blocked in the \<open>select\<close> on what it
  evaluated to (a nil channel never becomes ready), or returned.
\<close>

datatype writer_pc = WriterTop | WriterSelect "chan_ref option" | WriterDone

definition writer_eval :: "sref \<Rightarrow> 'g server \<Rightarrow> writer_pc" where
  "writer_eval r s = WriterSelect (sendTCP (heap s r))"

text \<open>One receive and what follows, or None while the channel is not ready.\<close>

definition writer_recv :: "sref \<Rightarrow> chan_ref option \<Rightarrow> 'g server \<Rightarrow> (writer_pc \<times> 'g server) option" where
  "writer_recv r ko s =
     (case ko of
        None \<Rightarrow> None
      | Some k \<Rightarrow>
          (case buf (chans s k) of
             [] \<Rightarrow> if is_closed (chans s k) then Some (WriterDone, s) else None
           | p # ps \<Rightarrow>
               (let s1 = s\<lparr>chans := (chans s)(k := (chans s k)\<lparr>buf := ps\<rparr>)\<rparr> in
                case tcp (heap s1 r) of
                  None \<Rightarrow> Some (WriterDone, s1\<lparr>panicked := True\<rparr>)
                | Some c \<Rightarrow>
                    (case WriteFrame conn_Write p (conns s1 c) of
                       (c', err) \<Rightarrow>
                         Some (if err = None then WriterTop else WriterDone,
                               s1\<lparr>conns := (conns s1)(c := c')\<rparr>)))))"

section \<open>Datagrams\<close>

text \<open>
  One iteration of \<open>runUDPReader\<close> for a datagram \<open>d\<close> from \<open>a\<close>: the buffer has one byte
  more than the limit, so a longer datagram is seen as too long.
\<close>

definition udp_iter :: "('m, 'g) env \<Rightarrow> addr \<Rightarrow> bytes \<Rightarrow> 'g server \<Rightarrow> 'g server" where
  "udp_iter E a d s =
     (let buf = take (nat (MaxUDPPayload (cfg E) + 1)) d; n = length buf in
      if int n > MaxUDPPayload (cfg E) then s
      else s\<lparr>events := fst (push (udp_message buf a) (events s))\<rparr>)"

section \<open>Lemmas\<close>

lemma serveTCPConn_startD:
  assumes "serveTCPConn_start E remote t s = (r, s')"
  shows "r = next_ref s" "s' = s\<lparr>
      heap := (heap s)(r := session_zero\<lparr>tcp := Some r, sendTCP := Some r, ConnectedAt := t\<rparr>),
      chans := (chans s)(r := chan_zero\<lparr>cap := nat (SendQueueDepth (cfg E))\<rparr>),
      conns := (conns s)(r := conn_zero\<lparr>c_remote := remote\<rparr>), next_ref := Suc r\<rparr>"
  using assms by (auto simp: serveTCPConn_start_def Let_def)

lemma ReadFrame_ready:
  assumes "frame_decided maxLen b"
  shows "fst (ReadFrame \<lparr>avail = b, stop = e\<rparr> maxLen) = fst (ReadFrame \<lparr>avail = b, stop = e'\<rparr> maxLen)"
    and "avail (snd (ReadFrame \<lparr>avail = b, stop = e\<rparr> maxLen)) =
      avail (snd (ReadFrame \<lparr>avail = b, stop = e'\<rparr> maxLen))"
proof -
  have len: "4 \<le> length b" using assms by (simp add: frame_decided_def)
  define n rest where "n = be_Uint32 (take 4 b)" and "rest = drop 4 b"
  have b: "b = be_PutUint32 n @ rest"
    using len by (simp add: n_def rest_def be_PutUint32_Uint32)
  have d: "(maxLen \<noteq> 0 \<and> n > maxLen) \<or> unat n \<le> length rest"
    using assms len by (auto simp: frame_decided_def n_def rest_def Let_def)
  show "fst (ReadFrame \<lparr>avail = b, stop = e\<rparr> maxLen) = fst (ReadFrame \<lparr>avail = b, stop = e'\<rparr> maxLen)"
    using d by (auto simp: b ReadFrame_header)
  show "avail (snd (ReadFrame \<lparr>avail = b, stop = e\<rparr> maxLen)) =
      avail (snd (ReadFrame \<lparr>avail = b, stop = e'\<rparr> maxLen))"
    using d by (auto simp: b ReadFrame_header)
qed

lemma sends_reader_disconnect: "sends s (reader_disconnect r err s)"
proof (cases "fired (disconnectOnce (heap s r))")
  case True
  then show ?thesis by (simp add: reader_disconnect_def once_Do_def upd_sess_def)
next
  case False
  then have "scheduled s (reader_disconnect r err s)
      (if length (ch (events s)) < depth (events s) then [disconnect_event r err] else [])"
    by (simp add: scheduled_def reader_disconnect_def once_Do_def Let_def) blast
  with False show ?thesis
    by (auto simp: reader_disconnect_def once_Do_def sends_def core_eq_iff ch_push Let_def
        queue_bounded_def)
qed

end

