(* ===== verification/System.thy ===== *)
theory System
  imports Tcp
begin

text \<open>
  The running server: the tick goroutine, one reader and one writer per connection, the UDP
  reader, the network and the context, as an interleaving of steps. A tick is cut between
  its events, so that every other goroutine can move there; one event is handled atomically.
\<close>

section \<open>States\<close>

text \<open>
  \<open>serveTCPConn\<close> runs the reader (\<open>ReaderRunning\<close>), closes the connection when the
  reader has returned (\<open>ReaderReturned\<close>), waits for the writer (\<open>ReaderWaiting\<close>) and
  is done.
\<close>

datatype reader_pc = ReaderNone | ReaderRunning | ReaderReturned | ReaderWaiting | ReaderDone

record 'g sys =
  srv :: "'g server"
  batch :: "event list"
  ticking :: "tickctx option"
  readers :: "sref \<Rightarrow> reader_pc"
  writers :: "sref \<Rightarrow> writer_pc"
  cancelled :: bool

text \<open>
  The state in which \<open>Run\<close> starts its goroutines: a server made by \<open>NewServer\<close>, with
  the UDP socket open when an address is configured.
\<close>

definition sys_init :: "('m, 'g) env \<Rightarrow> 'g \<Rightarrow> 'g sys" where
  "sys_init E g =
     \<lparr>srv = (new_state (cfg E) g)\<lparr>running := True, udpConn := (UDPAddr (cfg E) \<noteq> '''')\<rparr>,
      batch = [], ticking = None, readers = (\<lambda>_. ReaderNone), writers = (\<lambda>_. WriterDone),
      cancelled = False\<rparr>"

section \<open>Steps\<close>

inductive sys_step :: "('m, 'g) env \<Rightarrow> 'g sys \<Rightarrow> 'g sys \<Rightarrow> bool" for E where
  accept: "serveTCPConn_start E remote t (srv z) = (r, s) \<Longrightarrow>
    sys_step E z (z\<lparr>srv := s, readers := (readers z)(r := ReaderRunning),
                    writers := (writers z)(r := WriterTop)\<rparr>)"
| net_data: "\<not> c_closed (conns (srv z) k) \<Longrightarrow> c_end (conns (srv z) k) = None \<Longrightarrow>
    sys_step E z (z\<lparr>srv := (srv z)\<lparr>conns := (conns (srv z))(k :=
      (conns (srv z) k)\<lparr>c_in := c_in (conns (srv z) k) @ bs\<rparr>)\<rparr>\<rparr>)"
| net_end: "\<not> c_closed (conns (srv z) k) \<Longrightarrow> c_end (conns (srv z) k) = None \<Longrightarrow>
    sys_step E z (z\<lparr>srv := (srv z)\<lparr>conns := (conns (srv z))(k :=
      (conns (srv z) k)\<lparr>c_end := Some err\<rparr>)\<rparr>\<rparr>)"
| read: "readers z r = ReaderRunning \<Longrightarrow> tcp (heap (srv z) r) = Some k \<Longrightarrow>
    frame_ready (MaxFrameLen (cfg E)) (conns (srv z) k) \<Longrightarrow>
    reader_iter E r (srv z) = (go, s) \<Longrightarrow>
    sys_step E z (z\<lparr>srv := s,
      readers := (readers z)(r := if go then ReaderRunning else ReaderReturned)\<rparr>)"
| reader_close: "readers z r = ReaderReturned \<Longrightarrow>
    sys_step E z (z\<lparr>srv := close_conn (tcp (heap (srv z) r)) (srv z),
      readers := (readers z)(r := ReaderWaiting)\<rparr>)"
| reader_join: "readers z r = ReaderWaiting \<Longrightarrow> writers z r = WriterDone \<Longrightarrow>
    sys_step E z (z\<lparr>readers := (readers z)(r := ReaderDone)\<rparr>)"
| write_eval: "writers z r = WriterTop \<Longrightarrow>
    sys_step E z (z\<lparr>writers := (writers z)(r := writer_eval r (srv z))\<rparr>)"
| write_recv: "writers z r = WriterSelect ko \<Longrightarrow> writer_recv r ko (srv z) = Some (pc, s) \<Longrightarrow>
    sys_step E z (z\<lparr>srv := s, writers := (writers z)(r := pc)\<rparr>)"
| write_fail: "writers z r = WriterSelect (Some k) \<Longrightarrow> buf (chans (srv z) k) = p # ps \<Longrightarrow>
    sys_step E z (z\<lparr>srv := (srv z)\<lparr>chans := (chans (srv z))(k := (chans (srv z) k)\<lparr>buf := ps\<rparr>)\<rparr>,
      writers := (writers z)(r := WriterDone)\<rparr>)"
| udp_recv: "udpConn (srv z) \<Longrightarrow> sys_step E z (z\<lparr>srv := udp_iter E a d (srv z)\<rparr>)"
| tick_begin: "ticking z = None \<Longrightarrow> tick_start t (srv z) = (tc, evs, s) \<Longrightarrow>
    sys_step E z (z\<lparr>srv := s, batch := evs, ticking := Some tc\<rparr>)"
| tick_event: "ticking z = Some tc \<Longrightarrow> batch z = e # b \<Longrightarrow>
    sys_step E z (z\<lparr>srv := handleEvent E tc e (srv z), batch := b\<rparr>)"
| tick_end: "ticking z = Some tc \<Longrightarrow> batch z = [] \<Longrightarrow>
    sys_step E z (z\<lparr>srv := tick_finish E tc (srv z), ticking := None\<rparr>)"
| cancel: "sys_step E z (z\<lparr>cancelled := True\<rparr>)"
| watcher_close: "cancelled z \<Longrightarrow>
    sys_step E z (z\<lparr>srv := close_conn (tcp (heap (srv z) r)) (srv z)\<rparr>)"
| writer_cancel: "cancelled z \<Longrightarrow> writers z r \<noteq> WriterDone \<Longrightarrow>
    sys_step E z (z\<lparr>writers := (writers z)(r := WriterDone)\<rparr>)"

inductive sys_reach :: "('m, 'g) env \<Rightarrow> 'g sys \<Rightarrow> bool" for E where
  init: "sys_reach E (sys_init E g)"
| step: "sys_reach E z \<Longrightarrow> sys_step E z z' \<Longrightarrow> sys_reach E z'"

section \<open>Invariants of the running server\<close>

text \<open>The connection of a session is its own; nothing runs at an unused address.\<close>

definition sys_inv :: "'g sys \<Rightarrow> bool" where
  "sys_inv z \<longleftrightarrow> srv_inv (batch z) (srv z) \<and>
     (ticking z = None \<longrightarrow> batch z = []) \<and>
     (\<forall>r k. tcp (heap (srv z) r) = Some k \<longrightarrow> k = r) \<and>
     (\<forall>r. r < next_ref (srv z) \<longrightarrow> tcp (heap (srv z) r) = Some r) \<and>
     (\<forall>r. next_ref (srv z) \<le> r \<longrightarrow> readers z r = ReaderNone \<and> writers z r = WriterDone)"

text \<open>Steps of the I/O goroutines that touch neither sessions, tables nor events.\<close>

definition io_only :: "'g server \<Rightarrow> 'g server \<Rightarrow> bool" where
  "io_only s s' \<longleftrightarrow> heap s' = heap s \<and> sessions s' = sessions s \<and> udpSessions s' = udpSessions s \<and>
     next_ref s' = next_ref s \<and> events s' = events s \<and> calls s' = calls s \<and>
     tickCount s' = tickCount s \<and> panicked s' = panicked s \<and> (\<forall>k. is_closed (chans s' k) = is_closed (chans s k))"

lemma srv_inv_io: "srv_inv b s \<Longrightarrow> io_only s s' \<Longrightarrow> srv_inv b s'"
  unfolding srv_inv_def io_only_def chan_inv_def table_inv_def call_inv_def by simp

lemma srv_inv_push_message:
  assumes inv: "srv_inv b s" and e: "kind e = eventMessage" "event_wf (next_ref s) e"
  shows "srv_inv b (s\<lparr>events := fst (push e (events s))\<rparr>)"
proof -
  from inv have c: "chan_inv b s" by (simp add: srv_inv_def)
  have "chan_inv b (s\<lparr>events := fst (push e (events s))\<rparr>)"
    by (rule chan_invI)
      (use chan_invD [OF c] e in \<open>auto simp: ch_push queue_bounded_def split: if_splits\<close>)
  with inv show ?thesis by (simp add: srv_inv_def table_inv_def call_inv_def)
qed

lemma srv_inv_init: "srv_inv [] (srv (sys_init E g))"
  by (simp add: srv_inv_def sys_init_def new_state_def chan_inv_def table_inv_def call_inv_def
      unallocated_def session_zero_def)

lemma io_only_conns [simp]: "io_only s (s\<lparr>conns := c\<rparr>)"
  by (simp add: io_only_def)

lemma io_only_close_conn [simp]: "io_only s (close_conn k s)"
  by (simp add: io_only_def)

lemma io_only_writer_recv:
  assumes "writer_recv r ko s = Some (pc, s')" "tcp (heap s r) \<noteq> None"
  shows "io_only s s'"
  using assms by (auto simp: writer_recv_def Let_def io_only_def
      split: option.splits list.splits prod.splits if_splits)

lemma srv_inv_reader_iter:
  assumes inv: "srv_inv b s" and r: "r < next_ref s" and k: "tcp (heap s r) = Some k"
    and it: "reader_iter E r s = (go, s')"
  shows "srv_inv b s' \<and> advances s s'"
proof -
  obtain res st where rf: "ReadFrame (conn_stream (conns s k)) (MaxFrameLen (cfg E)) = (res, st)"
    by fastforce
  let ?s1 = "s\<lparr>conns := (conns s)(k := (conns s k)\<lparr>c_in := avail st\<rparr>)\<rparr>"
  have inv1: "srv_inv b ?s1" by (rule srv_inv_io [OF inv]) simp
  have adv1: "advances s ?s1" by (simp add: advances_def)
  have disc: "srv_inv b (reader_disconnect r err ?s1) \<and> advances s (reader_disconnect r err ?s1)" for err
    using srv_inv_sends [OF inv1 sends_reader_disconnect]
      advances_trans [OF adv1 sends_advances [OF sends_reader_disconnect]] by blast
  have msg: "srv_inv b (?s1\<lparr>events := q\<rparr>) \<and> advances s (?s1\<lparr>events := q\<rparr>)"
    if "push (tcp_message r p) (events s) = (q, ok)" for p q ok
  proof -
    have "srv_inv b (?s1\<lparr>events := fst (push (tcp_message r p) (events ?s1))\<rparr>)"
      using r by (intro srv_inv_push_message [OF inv1]) (simp_all add: event_defs event_wf_def)
    moreover have "depth q = depth (events s)"
      using that by (metis push_depth fst_conv)
    ultimately show ?thesis using that by (simp add: advances_def)
  qed
  show ?thesis
  proof (cases res)
    case (Inl err)
    then show ?thesis using it disc by (auto simp: reader_iter_def k rf Let_def)
  next
    case (Inr p)
    obtain q ok where "push (tcp_message r p) (events s) = (q, ok)" by fastforce
    with Inr show ?thesis
      using it msg disc by (auto simp: reader_iter_def k rf Let_def split: if_splits)
  qed
qed

lemma srv_inv_udp_iter: "srv_inv b s \<Longrightarrow> srv_inv b (udp_iter E a d s)"
  by (auto simp: udp_iter_def Let_def event_defs event_wf_def intro!: srv_inv_push_message)

lemma udp_iter_static [simp]:
  "next_ref (udp_iter E a d s) = next_ref s" "heap (udp_iter E a d s) = heap s"
  by (simp_all add: udp_iter_def Let_def)

text \<open>A fresh address has nothing pending and no calls.\<close>

lemma srv_inv_accept:
  assumes inv: "srv_inv b s" and st: "serveTCPConn_start E remote t s = (r, s')"
  shows "srv_inv b s'"
proof -
  from inv have c: "chan_inv b s" and tb: "table_inv s" and l: "call_inv s"
    by (simp_all add: srv_inv_def)
  have r: "r = next_ref s" and s': "s' = s\<lparr>
      heap := (heap s)(r := session_zero\<lparr>tcp := Some r, sendTCP := Some r, ConnectedAt := t\<rparr>),
      chans := (chans s)(r := chan_zero\<lparr>cap := nat (SendQueueDepth (cfg E))\<rparr>),
      conns := (conns s)(r := conn_zero\<lparr>c_remote := remote\<rparr>), next_ref := Suc r\<rparr>"
    using st by (auto simp: serveTCPConn_start_def Let_def)
  have dead: "sendTCP (heap s r) = None"
    using chan_inv_chan [OF c, of r] by (cases "sendTCP (heap s r)") (auto simp: r)
  then have quiet: "pending r (b @ ch (events s)) = 0"
    using chan_inv_pos [OF c, of r] by blast
  have "chan_inv b s'"
  proof (rule chan_invI)
    show "k = r' \<and> r' < next_ref s' \<and> \<not> is_closed (chans s' r')"
      if "sendTCP (heap s' r') = Some k" for r' k
      using that chan_inv_chan [OF c, of r' k] by (auto simp: s' r chan_zero_def split: if_splits)
    show "sendTCP (heap s' r') \<noteq> None" if "\<not> fired (disconnectOnce (heap s' r'))" for r'
      using that chan_inv_once [OF c, of r'] by (auto simp: s' split: if_splits)
    show "pending r' (b @ ch (events s')) \<le> 1" for r'
      using chan_inv_le [OF c, of r'] by (simp add: s')
    show "fired (disconnectOnce (heap s' r')) \<and> sendTCP (heap s' r') \<noteq> None"
      if "0 < pending r' (b @ ch (events s'))" for r'
      using that quiet chan_inv_pos [OF c, of r'] by (auto simp: s')
    show "event_wf (next_ref s') e" if "e \<in> set (b @ ch (events s'))" for e
      using that chan_inv_wf [OF c, of e] event_wf_mono [of "next_ref s" e "Suc r"] by (auto simp: s' r)
    show "queue_bounded s'" "\<not> panicked s'"
      using chan_inv_bounded [OF c] chan_inv_running [OF c] by (simp_all add: s' queue_bounded_def)
  qed
  moreover have "table_inv s'"
  proof -
    have "sessions s p \<noteq> Some r" for p
      using table_inv_entry [OF tb, of p r] by (auto simp: r)
    moreover have "udpSessions s a \<noteq> Some r" for a
      using table_inv_udp [OF tb, of a r] table_inv_fresh [OF tb, of r] by (auto simp: r)
    ultimately show ?thesis
      using table_invD [OF tb]
      by (intro table_invI) (auto simp: s' r session_zero_def less_Suc_eq split: if_splits)
  qed
  moreover have "call_inv s'"
  proof -
    have "disconnects r (calls s) = 0" "connects r (calls s) = 0"
      using call_inv_disc [OF l, of r] call_inv_conn [OF l, of r] table_inv_fresh [OF tb, of r]
      by (auto simp: r)
    then show ?thesis
      using call_invD [OF l] by (intro call_invI) (auto simp: s' r less_Suc_eq split: if_splits)
  qed
  ultimately show ?thesis by (simp add: srv_inv_def)
qed

section \<open>Every step keeps the invariant\<close>

lemma sys_invD:
  assumes "sys_inv z"
  shows "srv_inv (batch z) (srv z)" "ticking z = None \<Longrightarrow> batch z = []"
    "tcp (heap (srv z) r) = Some k \<Longrightarrow> k = r"
    "r < next_ref (srv z) \<Longrightarrow> tcp (heap (srv z) r) = Some r"
    "readers z r \<noteq> ReaderNone \<Longrightarrow> r < next_ref (srv z)"
    "writers z r \<noteq> WriterDone \<Longrightarrow> r < next_ref (srv z)"
  using assms linorder_not_less unfolding sys_inv_def by blast+

text \<open>
  A step that keeps every session's connection and starts no goroutine at a new address only
  has to keep the invariant of the server.
\<close>

lemma sys_inv_move:
  assumes "sys_inv z" "srv_inv (batch z') (srv z')" "ticking z' = None \<Longrightarrow> batch z' = []"
    and "\<And>r. tcp (heap (srv z') r) = tcp (heap (srv z) r)" "next_ref (srv z') = next_ref (srv z)"
    and "\<And>r. readers z r = ReaderNone \<Longrightarrow> readers z' r = ReaderNone"
    and "\<And>r. writers z r = WriterDone \<Longrightarrow> writers z' r = WriterDone"
  shows "sys_inv z'"
  using assms unfolding sys_inv_def by metis

lemma io_only_static: "io_only s s' \<Longrightarrow> tcp (heap s' r) = tcp (heap s r) \<and> next_ref s' = next_ref s"
  by (simp add: io_only_def)

lemma advances_static: "advances s s' \<Longrightarrow> tcp (heap s' r) = tcp (heap s r) \<and> next_ref s' = next_ref s"
  by (simp add: advances_def sess_advances_def)

lemma tick_static [simp]:
  "tcp (heap (handleEvent E tc e s) r) = tcp (heap s r)"
  "next_ref (handleEvent E tc e s) = next_ref s"
  "tcp (heap (tick_finish E tc s) r) = tcp (heap s r)"
  "next_ref (tick_finish E tc s) = next_ref s"
  using advances_static [OF advances_handleEvent [of s E tc e]]
    advances_static [OF advances_tick_finish [of s E tc]] by auto

lemma sys_inv_init: "sys_inv (sys_init E g)"
  using srv_inv_init [of E g]
  by (auto simp: sys_inv_def sys_init_def new_state_def unallocated_def session_zero_def)

lemma sys_inv_accept:
  assumes inv: "sys_inv z" and st: "serveTCPConn_start E remote t (srv z) = (r, s)"
  shows "sys_inv (z\<lparr>srv := s, readers := (readers z)(r := ReaderRunning),
                    writers := (writers z)(r := WriterTop)\<rparr>)"
proof -
  have "srv_inv (batch z) s" by (rule srv_inv_accept [OF sys_invD(1) [OF inv] st])
  moreover have "r = next_ref (srv z)" "next_ref s = Suc r"
    "tcp (heap s r') = (if r' = r then Some r else tcp (heap (srv z) r'))" for r'
    using st by (auto simp: serveTCPConn_start_def Let_def)
  ultimately show ?thesis
    using inv unfolding sys_inv_def by (auto simp: less_Suc_eq split: if_splits)
qed

lemma sys_inv_io:
  assumes "sys_inv z" "io_only (srv z) s"
    and "\<And>r. readers z r = ReaderNone \<Longrightarrow> rs r = ReaderNone"
    and "\<And>r. writers z r = WriterDone \<Longrightarrow> ws r = WriterDone"
  shows "sys_inv (z\<lparr>srv := s, readers := rs, writers := ws\<rparr>)"
  using assms(3,4) io_only_static [OF assms(2)] srv_inv_io [OF sys_invD(1) [OF assms(1)] assms(2)]
    sys_invD(2) [OF assms(1)]
  by (intro sys_inv_move [OF assms(1)]) auto

lemma sys_inv_read:
  assumes inv: "sys_inv z" and run: "readers z r = ReaderRunning"
    and k: "tcp (heap (srv z) r) = Some k" and it: "reader_iter E r (srv z) = (go, s)"
  shows "sys_inv (z\<lparr>srv := s,
      readers := (readers z)(r := if go then ReaderRunning else ReaderReturned)\<rparr>)"
proof -
  have "r < next_ref (srv z)" using sys_invD(5) [OF inv, of r] run by simp
  from srv_inv_reader_iter [OF sys_invD(1) [OF inv] this k it]
  have "srv_inv (batch z) s" "advances (srv z) s" by simp_all
  then show ?thesis
    using run advances_static sys_invD(2) [OF inv] by (intro sys_inv_move [OF inv]) auto
qed

lemma tick_start_static:
  "tick_start t s = (tc, evs, s1) \<Longrightarrow> heap s1 = heap s \<and> next_ref s1 = next_ref s"
  by (auto simp: tick_start_def drain_eq)

lemma sys_inv_tick_begin:
  assumes inv: "sys_inv z" and idle: "ticking z = None"
    and ts: "tick_start t (srv z) = (tc, evs, s)"
  shows "sys_inv (z\<lparr>srv := s, batch := evs, ticking := Some tc\<rparr>)"
proof -
  have "srv_inv [] (srv z)" using sys_invD(1,2) [OF inv] idle by simp
  from srv_inv_tick_start [OF this ts] show ?thesis
    using tick_start_static [OF ts] by (intro sys_inv_move [OF inv]) auto
qed

lemma sys_inv_tick_event:
  assumes E: "env_ok E" and inv: "sys_inv z" and t: "ticking z = Some tc" and b: "batch z = e # b"
  shows "sys_inv (z\<lparr>srv := handleEvent E tc e (srv z), batch := b\<rparr>)"
  using srv_inv_handleEvent [OF E, of e b "srv z" tc] sys_invD(1) [OF inv]
    t b
  by (intro sys_inv_move [OF inv]) auto

lemma sys_inv_tick_end:
  assumes inv: "sys_inv z" and b: "batch z = []"
  shows "sys_inv (z\<lparr>srv := tick_finish E tc (srv z), ticking := None\<rparr>)"
  using srv_inv_tick_finish [OF sys_invD(1) [OF inv]] b
  by (intro sys_inv_move [OF inv]) auto

lemma sys_inv_io_srv: "sys_inv z \<Longrightarrow> io_only (srv z) s \<Longrightarrow> sys_inv (z\<lparr>srv := s\<rparr>)"
  using sys_inv_io [of z s "readers z" "writers z"] by simp

lemma sys_inv_progress:
  assumes inv: "sys_inv z"
  shows "rs r \<noteq> ReaderNone \<Longrightarrow> readers z r \<noteq> ReaderNone \<Longrightarrow>
      sys_inv (z\<lparr>readers := (readers z)(r := rs r)\<rparr>)"
    and "writers z r \<noteq> WriterDone \<Longrightarrow> sys_inv (z\<lparr>writers := (writers z)(r := pc)\<rparr>)"
  using inv unfolding sys_inv_def by auto

lemma sys_inv_step:
  assumes E: "env_ok E" and step: "sys_step E z z'" and inv: "sys_inv z"
  shows "sys_inv z'"
  using step
proof cases
  case (accept remote t r s)
  with sys_inv_accept [OF inv] show ?thesis by simp
next
  case (net_data k bs)
  with sys_inv_io_srv [OF inv io_only_conns] show ?thesis by simp
next
  case (net_end k err)
  with sys_inv_io_srv [OF inv io_only_conns] show ?thesis by simp
next
  case (read r k go s)
  show ?thesis unfolding read(1) by (rule sys_inv_read [OF inv read(2,3,5)])
next
  case (reader_close r)
  then have "sys_inv (z\<lparr>srv := close_conn (tcp (heap (srv z) r)) (srv z),
      readers := (readers z)(r := ReaderWaiting), writers := writers z\<rparr>)"
    by (intro sys_inv_io [OF inv]) auto
  with reader_close(1) show ?thesis by simp
next
  case (reader_join r)
  with sys_inv_progress(1) [OF inv, of "\<lambda>_. ReaderDone"] show ?thesis by simp
next
  case (write_eval r)
  with sys_inv_progress(2) [OF inv] show ?thesis by simp
next
  case (write_recv r ko pc s)
  have "tcp (heap (srv z) r) \<noteq> None"
    using sys_invD(4,6) [OF inv, of r] write_recv(2) by simp
  from io_only_writer_recv [OF write_recv(3) this]
  have "io_only (srv z) s" .
  with write_recv(2)
  have "sys_inv (z\<lparr>srv := s, readers := readers z, writers := (writers z)(r := pc)\<rparr>)"
    by (intro sys_inv_io [OF inv]) auto
  with write_recv(1) show ?thesis by simp
next
  case (write_fail r k p ps)
  let ?s = "(srv z)\<lparr>chans := (chans (srv z))(k := (chans (srv z) k)\<lparr>buf := ps\<rparr>)\<rparr>"
  have "sys_inv (z\<lparr>srv := ?s, readers := readers z, writers := (writers z)(r := WriterDone)\<rparr>)"
    by (intro sys_inv_io [OF inv]) (auto simp: io_only_def)
  with write_fail(1) show ?thesis by simp
next
  case (udp_recv a d)
  then show ?thesis
    using srv_inv_udp_iter [OF sys_invD(1) [OF inv]] sys_invD(2) [OF inv]
    by (simp, intro sys_inv_move [OF inv]) auto
next
  case (tick_begin t tc evs s)
  with sys_inv_tick_begin [OF inv] show ?thesis by simp
next
  case (tick_event tc e b)
  with sys_inv_tick_event [OF E inv] show ?thesis by simp
next
  case (tick_end tc)
  with sys_inv_tick_end [OF inv] show ?thesis by simp
next
  case cancel
  with inv show ?thesis by (simp add: sys_inv_def)
next
  case (watcher_close r)
  with sys_inv_io_srv [OF inv io_only_close_conn] show ?thesis by simp
next
  case (writer_cancel r)
  with sys_inv_progress(2) [OF inv] show ?thesis by simp
qed

theorem sys_inv_reach:
  assumes "env_ok E" "sys_reach E z"
  shows "sys_inv z"
  using assms(2) by (induction rule: sys_reach.induct) (auto intro: sys_inv_init sys_inv_step [OF assms(1)])

end

