(* ===== verification/Executions.thy ===== *)
theory Executions
  imports System
begin

text \<open>
  Executions of the running server: what a step may change, and that sessions only move
  forward along every execution.
\<close>

section \<open>What a message does\<close>

text \<open>
  A relation that holds of the building blocks of the tick goroutine holds of the handling of
  a whole message: of what may be sent, of a login, a pairing, and the callbacks these make.
\<close>

locale event_relation =
  fixes R :: "'g server \<Rightarrow> 'g server \<Rightarrow> bool"
  assumes trans: "R s s1 \<Longrightarrow> R s1 s2 \<Longrightarrow> R s s2"
    and by_sends: "sends s s' \<Longrightarrow> R s s'"
    and registers: "R s (register_session q p t s)"
    and pairs: "R s (pair_session q a n s)"
    and panics: "R s (s\<lparr>panicked := True\<rparr>)"
    and records: "R s (record_call (CallOnAuth q) g s)" "R s (record_call (CallOnConnect q) g s)"
begin

lemma by_login: "R s (handleLogin E tc q lm s)"
proof (cases rule: handleLogin_cases [of s E tc q lm])
  case rejected
  then show ?thesis by (rule by_sends)
next
  case (accepted playerID token s1 s2 s4)
  have "R s2 s4" using accepted(3) trans [OF registers records(1)] registers by auto
  from trans [OF by_sends [OF accepted(1)] this] show ?thesis
    by (rule trans) (rule by_sends [OF accepted(4)])
qed

lemma by_handshake: "R s (handleUDPHandshake E tc a hs s)"
proof (cases rule: handleUDPHandshake_cases [of s E tc a hs])
  case rejected
  then show ?thesis by (rule by_sends)
next
  case (accepted q t s1 s2)
  have "R s s1" unfolding accepted(4) by (rule trans [OF by_sends [OF sends_draw] pairs])
  from trans [OF this by_sends [OF accepted(5)]] show ?thesis
    using accepted(6) trans records(2) by auto
qed

lemma by_route: "R s (route_body E tc e se body s)"
  by (cases rule: route_body_cases [of s E tc e se body])
    (simp_all add: by_sends by_login by_handshake panics)

lemma by_message:
  assumes "event_wf n e" "kind e = eventMessage"
  shows "R s (handleEvent E tc e s)"
proof -
  obtain se s1 where rs: "resolve_session tc e s = (se, s1)" by fastforce
  have "sends s s1"
    using sends_resolve [of e s tc] assms rs by (auto simp: event_wf_def split: if_splits)
  then have s1: "R s s1" by (rule by_sends)
  have "R s (route_body E tc e se body s1)" for body by (rule trans [OF s1 by_route])
  moreover have "R s (scheduleDisconnect se err s1)" for err
    by (rule trans [OF s1 by_sends [OF sends_scheduleDisconnect]])
  ultimately show ?thesis
    using s1 by (auto simp: handleEvent_def assms(2) dispatchMessage_def rs split: sum.split)
qed

end

section \<open>What a step does\<close>

text \<open>
  The steps by their effect on the server: a connection is accepted; only buffers of
  connections and channels change; a reader or the UDP reader delivers; a tick begins, handles
  an event, ends.
\<close>

lemma sys_step_effect:
  assumes "sys_inv z" "sys_step E z z'"
  obtains (accepted) remote t r where "serveTCPConn_start E remote t (srv z) = (r, srv z')"
      "batch z' = batch z"
  | (io) "io_only (srv z) (srv z')" "batch z' = batch z"
  | (tcp_read) r k go where "r < next_ref (srv z)" "tcp (heap (srv z) r) = Some k"
      "reader_iter E r (srv z) = (go, srv z')" "batch z' = batch z"
  | (udp_read) a d where "srv z' = udp_iter E a d (srv z)" "batch z' = batch z"
  | (start) t tc where "batch z = []" "tick_start t (srv z) = (tc, batch z', srv z')"
  | (handle) tc e where "batch z = e # batch z'" "srv z' = handleEvent E tc e (srv z)"
  | (finish) tc where "batch z = []" "batch z' = []" "srv z' = tick_finish E tc (srv z)"
  using assms(2)
proof cases
  case (accept remote t r s)
  then show thesis by (intro accepted) simp_all
next
  case (net_data k bs)
  then show thesis by (intro io) simp_all
next
  case (net_end k err)
  then show thesis by (intro io) simp_all
next
  case (read r k go s)
  have "r < next_ref (srv z)" using sys_invD(5) [OF assms(1), of r] read(2) by simp
  with read show thesis by (intro tcp_read) simp_all
next
  case (write_recv r ko pc s)
  have "tcp (heap (srv z) r) \<noteq> None"
    using sys_invD(4,6) [OF assms(1), of r] write_recv(2) by simp
  from io_only_writer_recv [OF write_recv(3) this] write_recv(1) show thesis by (intro io) simp_all
next
  case (write_fail r k p ps)
  then show thesis by (intro io) (simp_all add: io_only_def)
next
  case (udp_recv a d)
  then show thesis by (intro udp_read) simp_all
next
  case (tick_begin t tc evs s)
  then show thesis using sys_invD(2) [OF assms(1)] by (intro start [of t tc]) simp_all
next
  case (tick_event tc e b)
  then show thesis by (intro handle) simp_all
next
  case (tick_end tc)
  then show thesis by (intro finish) simp_all
qed (rule io; simp add: io_only_def close_conn_def split: option.split)+

text \<open>The invariant holds along executions.\<close>

interpretation keeps_inv: preserved "\<lambda>z. env_ok E \<longrightarrow> sys_inv z" "sys_step E" for E
  by unfold_locales (blast intro: sys_inv_step)

lemma sys_inv_run: "env_ok E \<Longrightarrow> sys_inv z \<Longrightarrow> rtranclp (sys_step E) z z' \<Longrightarrow> sys_inv z'"
  using keeps_inv.run_keeps by blast

section \<open>Sessions only move forward\<close>

definition sys_later :: "'g sys \<Rightarrow> 'g sys \<Rightarrow> bool" where
  "sys_later z z' \<longleftrightarrow> next_ref (srv z) \<le> next_ref (srv z') \<and>
     (\<forall>r < next_ref (srv z). sess_advances (heap (srv z) r) (heap (srv z') r)) \<and>
     (\<exists>cs. calls (srv z') = calls (srv z) @ cs)"

lemma sys_later_refl: "sys_later z z"
  by (simp add: sys_later_def)

lemma sys_later_trans:
  assumes "sys_later z z1" "sys_later z1 z2"
  shows "sys_later z z2"
proof -
  from assms obtain cs cs' where "calls (srv z1) = calls (srv z) @ cs" "calls (srv z2) = calls (srv z1) @ cs'"
    unfolding sys_later_def by blast
  then have "\<exists>cs. calls (srv z2) = calls (srv z) @ cs" by simp
  moreover have "sess_advances (heap (srv z) r) (heap (srv z2) r)" if "r < next_ref (srv z)" for r
    using that assms sess_advances_trans unfolding sys_later_def by (meson less_le_trans)
  ultimately show ?thesis using assms unfolding sys_later_def by auto
qed

lemma advances_later: "advances (srv z) (srv z') \<Longrightarrow> sys_later z z'"
  by (simp add: sys_later_def advances_def)

lemma sys_step_later:
  assumes inv: "sys_inv z" and step: "sys_step E z z'"
  shows "sys_later z z'"
  using inv step
proof (cases rule: sys_step_effect)
  case (accepted remote t r)
  from serveTCPConn_startD [OF this(1)] show ?thesis by (simp add: sys_later_def)
next
  case io
  then show ?thesis by (simp add: sys_later_def io_only_def)
next
  case (tcp_read r k go)
  then show ?thesis using srv_inv_reader_iter [OF sys_invD(1) [OF inv]] advances_later by blast
next
  case (udp_read a d)
  then show ?thesis by (simp add: sys_later_def udp_iter_def Let_def)
next
  case (start t tc)
  from tick_startD(3) [OF this(2)] show ?thesis by (simp add: sys_later_def)
next
  case (handle tc e)
  then show ?thesis using advances_handleEvent advances_later by metis
next
  case (finish tc)
  then show ?thesis using advances_tick_finish advances_later by metis
qed

interpretation moves_on: preserved
  "\<lambda>z. env_ok E \<longrightarrow> sys_inv z \<and> sys_later z0 z" "sys_step E" for E z0
  by unfold_locales (blast intro: sys_inv_step sys_later_trans sys_step_later)

lemma sys_run_later:
  "env_ok E \<Longrightarrow> sys_inv z \<Longrightarrow> rtranclp (sys_step E) z z' \<Longrightarrow> sys_later z z'"
  using moves_on.run_keeps [of E z z' z] sys_later_refl [of z] by blast

end

