(* ===== verification/Moves.thy ===== *)
theory Moves
  imports System
begin

text \<open>
  The running server as an executable machine: a scheduler's choice names the goroutine that
  moves and what its environment delivers, \<open>move\<close> computes the next state. The choices
  describe exactly the steps of \<open>sys_step\<close>, so that a list of choices is an execution.
\<close>

section \<open>Choices\<close>

datatype choice =
    DoAccept addr int
  | DoNetData conn_ref bytes
  | DoNetEnd conn_ref goerr
  | DoRead sref
  | DoReaderClose sref
  | DoReaderJoin sref
  | DoWriteEval sref
  | DoWriteRecv sref
  | DoWriteFail sref
  | DoUDP addr bytes
  | DoTickBegin int
  | DoTickEvent
  | DoTickEnd
  | DoCancel
  | DoWatcherClose sref
  | DoWriterCancel sref

definition guarded :: "bool \<Rightarrow> 'a \<Rightarrow> 'a option" where
  "guarded b x = (if b then Some x else None)"

lemma when_Some [simp]: "guarded b x = Some y \<longleftrightarrow> b \<and> x = y"
  by (simp add: guarded_def)

definition on_conn :: "conn_ref \<Rightarrow> (conn \<Rightarrow> conn) \<Rightarrow> 'g sys \<Rightarrow> 'g sys option" where
  "on_conn k f z =
     guarded (\<not> c_closed (conns (srv z) k) \<and> c_end (conns (srv z) k) = None)
       (z\<lparr>srv := (srv z)\<lparr>conns := (conns (srv z))(k := f (conns (srv z) k))\<rparr>\<rparr>)"

fun move :: "('m, 'g) env \<Rightarrow> choice \<Rightarrow> 'g sys \<Rightarrow> 'g sys option" where
  "move E (DoAccept remote t) z =
     (let (r, s) = serveTCPConn_start E remote t (srv z)
      in Some (z\<lparr>srv := s, readers := (readers z)(r := ReaderRunning),
                 writers := (writers z)(r := WriterTop)\<rparr>))"
| "move E (DoNetData k bs) z = on_conn k (\<lambda>c. c\<lparr>c_in := c_in c @ bs\<rparr>) z"
| "move E (DoNetEnd k err) z = on_conn k (\<lambda>c. c\<lparr>c_end := Some err\<rparr>) z"
| "move E (DoRead r) z =
     (case tcp (heap (srv z) r) of
        None \<Rightarrow> None
      | Some k \<Rightarrow>
          (let (go, s) = reader_iter E r (srv z)
           in guarded (readers z r = ReaderRunning \<and> frame_ready (MaxFrameLen (cfg E)) (conns (srv z) k))
             (z\<lparr>srv := s, readers := (readers z)(r := if go then ReaderRunning else ReaderReturned)\<rparr>)))"
| "move E (DoReaderClose r) z =
     guarded (readers z r = ReaderReturned)
       (z\<lparr>srv := close_conn (tcp (heap (srv z) r)) (srv z), readers := (readers z)(r := ReaderWaiting)\<rparr>)"
| "move E (DoReaderJoin r) z =
     guarded (readers z r = ReaderWaiting \<and> writers z r = WriterDone)
       (z\<lparr>readers := (readers z)(r := ReaderDone)\<rparr>)"
| "move E (DoWriteEval r) z =
     guarded (writers z r = WriterTop) (z\<lparr>writers := (writers z)(r := writer_eval r (srv z))\<rparr>)"
| "move E (DoWriteRecv r) z =
     (case writers z r of
        WriterSelect ko \<Rightarrow>
          map_option (\<lambda>(pc, s). z\<lparr>srv := s, writers := (writers z)(r := pc)\<rparr>) (writer_recv r ko (srv z))
      | _ \<Rightarrow> None)"
| "move E (DoWriteFail r) z =
     (case writers z r of
        WriterSelect (Some k) \<Rightarrow>
          (case buf (chans (srv z) k) of
             [] \<Rightarrow> None
           | p # ps \<Rightarrow>
               Some (z\<lparr>srv := (srv z)\<lparr>chans := (chans (srv z))(k := (chans (srv z) k)\<lparr>buf := ps\<rparr>)\<rparr>,
                       writers := (writers z)(r := WriterDone)\<rparr>))
      | _ \<Rightarrow> None)"
| "move E (DoUDP a d) z = guarded (udpConn (srv z)) (z\<lparr>srv := udp_iter E a d (srv z)\<rparr>)"
| "move E (DoTickBegin t) z =
     (let (tc, evs, s) = tick_start t (srv z)
      in guarded (ticking z = None) (z\<lparr>srv := s, batch := evs, ticking := Some tc\<rparr>))"
| "move E DoTickEvent z =
     (case (ticking z, batch z) of
        (Some tc, e # b) \<Rightarrow> Some (z\<lparr>srv := handleEvent E tc e (srv z), batch := b\<rparr>)
      | _ \<Rightarrow> None)"
| "move E DoTickEnd z =
     (case (ticking z, batch z) of
        (Some tc, []) \<Rightarrow> Some (z\<lparr>srv := tick_finish E tc (srv z), ticking := None\<rparr>)
      | _ \<Rightarrow> None)"
| "move E DoCancel z = Some (z\<lparr>cancelled := True\<rparr>)"
| "move E (DoWatcherClose r) z =
     guarded (cancelled z) (z\<lparr>srv := close_conn (tcp (heap (srv z) r)) (srv z)\<rparr>)"
| "move E (DoWriterCancel r) z =
     guarded (cancelled z \<and> writers z r \<noteq> WriterDone) (z\<lparr>writers := (writers z)(r := WriterDone)\<rparr>)"

fun moves :: "('m, 'g) env \<Rightarrow> choice list \<Rightarrow> 'g sys \<Rightarrow> 'g sys option" where
  "moves E [] z = Some z"
| "moves E (c # cs) z = (case move E c z of None \<Rightarrow> None | Some z1 \<Rightarrow> moves E cs z1)"

section \<open>Choices and steps\<close>

lemma move_sound: "move E c z = Some z' \<Longrightarrow> sys_step E z z'"
  by (cases c)
    (auto simp: on_conn_def Let_def split: option.splits prod.splits writer_pc.splits list.splits
      intro: sys_step.intros)

lemma move_complete: "sys_step E z z' \<Longrightarrow> \<exists>c. move E c z = Some z'"
proof (induction rule: sys_step.cases)
  case (accept remote t z r s)
  then show ?case by (intro exI [of _ "DoAccept remote t"]) simp
next
  case (net_data z k bs)
  then show ?case by (intro exI [of _ "DoNetData k bs"]) (simp add: on_conn_def)
next
  case (net_end z k err)
  then show ?case by (intro exI [of _ "DoNetEnd k err"]) (simp add: on_conn_def)
next
  case (read z r k go s)
  then show ?case by (intro exI [of _ "DoRead r"]) simp
next
  case (reader_close z r)
  then show ?case by (intro exI [of _ "DoReaderClose r"]) simp
next
  case (reader_join z r)
  then show ?case by (intro exI [of _ "DoReaderJoin r"]) simp
next
  case (write_eval z r)
  then show ?case by (intro exI [of _ "DoWriteEval r"]) simp
next
  case (write_recv z r ko pc s)
  then show ?case by (intro exI [of _ "DoWriteRecv r"]) simp
next
  case (write_fail z r k p ps)
  then show ?case by (intro exI [of _ "DoWriteFail r"]) simp
next
  case (udp_recv z a d)
  then show ?case by (intro exI [of _ "DoUDP a d"]) simp
next
  case (tick_begin z t tc evs s)
  then show ?case by (intro exI [of _ "DoTickBegin t"]) simp
next
  case (tick_event z tc e b)
  then show ?case by (intro exI [of _ DoTickEvent]) simp
next
  case (tick_end z tc)
  then show ?case by (intro exI [of _ DoTickEnd]) simp
next
  case (cancel z)
  then show ?case by (intro exI [of _ DoCancel]) simp
next
  case (watcher_close z r)
  then show ?case by (intro exI [of _ "DoWatcherClose r"]) simp
next
  case (writer_cancel z r)
  then show ?case by (intro exI [of _ "DoWriterCancel r"]) simp
qed

lemma moves_run: "moves E cs z = Some z' \<Longrightarrow> rtranclp (sys_step E) z z'"
  by (induction cs arbitrary: z)
    (auto split: option.splits intro: converse_rtranclp_into_rtranclp move_sound)

lemma moves_append:
  "moves E (cs @ ds) z = (case moves E cs z of None \<Rightarrow> None | Some z1 \<Rightarrow> moves E ds z1)"
  by (induction cs arbitrary: z) (auto split: option.split)

lemma run_reach: "rtranclp (sys_step E) z z' \<Longrightarrow> sys_reach E z \<Longrightarrow> sys_reach E z'"
  by (induction rule: rtranclp_induct) (auto intro: sys_reach.step)

lemma moves_reach: "moves E cs (sys_init E g) = Some z \<Longrightarrow> sys_reach E z"
  by (blast intro: run_reach sys_reach.init moves_run)

lemma reach_moves: "sys_reach E z \<Longrightarrow> \<exists>g cs. moves E cs (sys_init E g) = Some z"
proof (induction rule: sys_reach.induct)
  case (init g)
  show ?case by (rule exI [of _ g], rule exI [of _ "[]"]) simp
next
  case (step z z')
  then obtain g cs where cs: "moves E cs (sys_init E g) = Some z" by blast
  obtain c where c: "move E c z = Some z'" using move_complete [OF step.hyps(2)] by blast
  have "moves E (cs @ [c]) (sys_init E g) = Some z'" by (simp add: moves_append cs c)
  then show ?case by blast
qed

section \<open>Concrete executions\<close>

text \<open>The definitions by which the simplifier runs a list of choices on the demo server.\<close>

lemmas evaluation = Let_def serveTCPConn_start_def sys_init_def new_state_def newQueue_def on_conn_def
  guarded_def reader_iter_def conn_stream_def ReadFrame_def io_ReadFull_def frame_ready_def
  frame_decided_def push_def event_defs frameHeaderSize_def conn_zero_def chan_zero_def
  session_zero_def tick_start_def be_Uint32_def drain_eq handleEvent_def dispatchMessage_def
  resolve_session_def stale_event_def route_body_def handleLogin_def GetBody_def GetCredentials_def
  callAuthenticate_def demo_auth_def sendLoginResponse_def scheduleDisconnect_def once_Do_def
  pushTCP_def upd_sess_def tick_finish_def runPingTick_def ping_session_def range_now_def draw_def
  cleanupSession_def close_conn_def close_chan_def invoke_eq record_call_def ping_interval_def
  ping_timeout_def DefaultPingInterval_def DefaultPingTimeout_def time_Second_def time_zero_def
  time_Sub_def time_Add_def acceptLogin_def generateSessionToken_def register_session_def
  login_endpoint_def handleUDPHandshake_def sendUDPHandshakeAck_def udpSendRaw_def udp_iter_def
  pair_session_def UdpHandshake_GetPlayerId_def UdpHandshake_GetSessionToken_def time_UnixNano_def int64_def
  reader_disconnect_def writer_eval_def writer_recv_def WriteFrame_def conn_Write_def

text \<open>
  A player logs in over TCP, its token is checked on a datagram, and \<open>OnConnect\<close> is called.
\<close>

definition pairing_run :: "choice list" where
  "pairing_run =
     [DoAccept ''client'' 5, DoNetData 0 [0, 0, 0, 2, 1, 7], DoRead 0, DoTickBegin 10, DoTickEvent,
      DoTickEnd,
      DoUDP ''here'' (2 # 7 # map (\<lambda>c. word_of_nat (of_char c)) (base64_RawURL (replicate 16 77))),
      DoTickBegin 60, DoTickEvent, DoTickEnd]"

lemma token_bytes [simp]:
  "char_of (unat (word_of_nat (of_char c) :: byte)) = c"
  "map ((\<lambda>b. char_of (unat b)) \<circ> (\<lambda>c. word_of_nat (of_char c) :: byte)) cs = cs"
  by (simp_all add: unat_of_nat char_of_mod_256 [where n = "of_char c", simplified] comp_def)

lemma paired_state:
  obtains z where "sys_reach demo z" "sessions (srv z) 7 = Some 0" "udpSessions (srv z) ''here'' = Some 0"
    "calls (srv z) = [CallOnConnect 0]" "authState (heap (srv z) 0) = sessionReady"
    "next_ref (srv z) = 1" "ID (heap (srv z) 0) = 7" "session_udpAddr (heap (srv z) 0) = Some ''here''"
proof -
  have "\<exists>z. moves demo pairing_run (sys_init demo 0) = Some z"
    by (simp add: pairing_run_def evaluation base64_length)
  then obtain z where run: "moves demo pairing_run (sys_init demo 0) = Some z" by blast
  show thesis
    by (rule that [OF moves_reach [OF run]])
      (use run in \<open>auto simp: pairing_run_def evaluation base64_length\<close>)
qed

end

