(* ===== verification/Lockout.thy ===== *)
theory Lockout
  imports Executions Moves
begin

text \<open>
  Sessions that can no longer be cleaned up: once a session is in the table with its one
  disconnect signal spent and no disconnect event queued, no execution removes it, so that its
  player is locked out.
\<close>

section \<open>Sessions that cannot be cleaned up\<close>

text \<open>
  \<open>undisturbed r s s'\<close>: once the disconnect of session \<open>r\<close> has been signalled, the
  change queues no event for it, and leaves its channel and the calls about it.
\<close>

definition undisturbed :: "sref \<Rightarrow> 'g server \<Rightarrow> 'g server \<Rightarrow> bool" where
  "undisturbed r s s' \<longleftrightarrow>
     (fired (disconnectOnce (heap s r)) \<longrightarrow> fired (disconnectOnce (heap s' r)) \<and>
        pending r (ch (events s')) = pending r (ch (events s))) \<and>
     disconnects r (calls s') = disconnects r (calls s)"

lemma undisturbed_refl [simp]: "undisturbed r s s"
  by (simp add: undisturbed_def)

lemma undisturbed_trans: "undisturbed r s s1 \<Longrightarrow> undisturbed r s1 s2 \<Longrightarrow> undisturbed r s s2"
  by (simp add: undisturbed_def)

lemma undisturbed_sends:
  assumes "sends s s'"
  shows "undisturbed r s s'"
proof -
  obtain es cs where "ch (events s') = ch (events s) @ es" "scheduled s s' es"
    "calls s' = calls s @ cs" "list_all dispatch_call cs"
    using sends_events [OF assms] sends_calls [OF assms] by metis
  then show ?thesis
    using pending_scheduled(2) [of s s' es r] sends_fired [OF assms, of r]
    by (auto simp: undisturbed_def dispatch_calls_neutral)
qed

lemma undisturbed_simps [simp]:
  "undisturbed r s (register_session q p t s)" "undisturbed r s (pair_session q a n s)"
  "undisturbed r s (s\<lparr>panicked := True\<rparr>)"
  "undisturbed r s (record_call (CallOnAuth q) g s)"
  "undisturbed r s (record_call (CallOnConnect q) g s)"
  by (simp_all add: undisturbed_def register_session_def pair_session_def Let_def)

interpretation calm: event_relation "undisturbed r" for r
  by unfold_locales (auto intro: undisturbed_trans undisturbed_sends)

lemma cleanup_quiet:
  "q \<noteq> r \<Longrightarrow> heap (cleanupSession E (Some q) err s) r = heap s r"
  "q \<noteq> r \<Longrightarrow> disconnects r (calls (cleanupSession E (Some q) err s)) = disconnects r (calls s)"
  by (simp_all add: cleanupSession_simps split: option.split)

lemma undisturbed_cleanup:
  "q \<noteq> r \<Longrightarrow> undisturbed r s (cleanupSession E (Some q) err s)"
  by (simp add: undisturbed_def cleanup_quiet cleanupSession_simps(3))

text \<open>An event that is not the disconnect of the session leaves it undisturbed.\<close>

lemma undisturbed_handleEvent:
  assumes wf: "event_wf n e" and e: "kind e \<noteq> eventDisconnect \<or> sess e \<noteq> Some r"
  shows "undisturbed r s (handleEvent E tc e s)"
proof (cases "kind e")
  case eventMessage
  with wf show ?thesis by (rule calm.by_message)
next
  case eventConnect
  with wf show ?thesis by (simp add: event_wf_def)
next
  case eventDisconnect
  with wf e obtain q where "sess e = Some q" "q \<noteq> r"
    by (auto simp: event_wf_def split: option.splits)
  then show ?thesis by (simp add: handleEvent_def eventDisconnect undisturbed_cleanup)
qed

text \<open>
  A session is stuck when it is in the table, its one disconnect signal has been used up and
  no disconnect event for it is queued.
\<close>

definition stuck :: "sref \<Rightarrow> pid \<Rightarrow> 'g sys \<Rightarrow> bool" where
  "stuck r p z \<longleftrightarrow> sessions (srv z) p = Some r \<and> fired (disconnectOnce (heap (srv z) r)) \<and>
     pending r (batch z @ ch (events (srv z))) = 0"

lemma stuck_undisturbed:
  assumes "stuck r p z" "undisturbed r (srv z) (srv z')" "sessions (srv z') p = Some r"
    and "pending r (batch z') = pending r (batch z)"
  shows "stuck r p z' \<and> disconnects r (calls (srv z')) = disconnects r (calls (srv z))"
  using assms by (auto simp: stuck_def undisturbed_def)

text \<open>Only the disconnect event of the session in the table removes an entry.\<close>

lemma sessions_route:
  assumes "sessions s p = Some r"
  shows "sessions (route_body E tc e se body s) p = Some r"
proof (cases rule: route_body_cases [of s E tc e se body])
  case sends
  with assms show ?thesis by (simp add: sends_static)
next
  case (login q lm)
  show ?thesis
  proof (cases rule: handleLogin_cases [of s E tc q lm])
    case rejected
    with assms login(5) show ?thesis by (simp add: sends_static)
  next
    case (accepted playerID token s1 s2 s4)
    have "sessions s4 p = Some r"
      using accepted(3) assms accepted(2) sends_static(1) [OF accepted(1)]
      by (auto simp: register_session_def Let_def)
    with login(5) sends_static(1) [OF accepted(4)] show ?thesis by simp
  qed
next
  case (pair a hs)
  show ?thesis
  proof (cases rule: handleUDPHandshake_cases [of s E tc a hs])
    case rejected
    with assms pair(4) show ?thesis by (simp add: sends_static)
  next
    case (accepted q t s1 s2)
    have "sessions s1 p = Some r" using assms by (simp add: accepted(4) pair_session_def Let_def)
    with pair(4) accepted(6) sends_static(1) [OF accepted(5)] show ?thesis by auto
  qed
next
  case panic
  with assms show ?thesis by simp
qed

lemma sessions_handleEvent:
  assumes inv: "srv_inv (e # b) s" and s: "sessions s p = Some r"
    and e: "kind e \<noteq> eventDisconnect \<or> sess e \<noteq> Some r"
  shows "sessions (handleEvent E tc e s) p = Some r"
proof (cases "kind e")
  case eventMessage
  obtain se s1 where rs: "resolve_session tc e s = (se, s1)" by fastforce
  have "sessions s1 p = Some r" using resolve_session_facts(2) [of tc e s] rs s by simp
  with sessions_route [OF this] show ?thesis
    by (auto simp: handleEvent_def eventMessage dispatchMessage_def rs
        sends_static(1) [OF sends_scheduleDisconnect] split: sum.split)
next
  case eventConnect
  with s show ?thesis by (simp add: handleEvent_def invoke_eq split: option.split)
next
  case eventDisconnect
  from inv have c: "chan_inv (e # b) s" and t: "table_inv s" by (simp_all add: srv_inv_def)
  obtain q where q: "sess e = Some q" "q \<noteq> r"
    using chan_inv_wf [OF c, of e] eventDisconnect e by (auto simp: event_wf_def split: option.splits)
  have "0 < pending q ((e # b) @ ch (events s))" using eventDisconnect q by simp
  then have "sendTCP (heap s q) \<noteq> None" using chan_inv_pos [OF c] by blast
  then have "ID (heap s q) = 0 \<or> sessions s (ID (heap s q)) = Some q"
    using table_inv_live [OF t, of q] table_inv_prelogin [OF t, of q] by blast
  with q s show ?thesis by (auto simp: handleEvent_def eventDisconnect cleanupSession_simps(1))
qed

section \<open>Stuck sessions stay stuck\<close>

lemma pending_push_message:
  "kind e = eventMessage \<Longrightarrow> pending r (ch (fst (push e q))) = pending r (ch q)"
  by (simp add: ch_push)

lemma reader_iter_quiet:
  assumes k: "tcp (heap s q) = Some k" and it: "reader_iter E q s = (go, s')"
  shows "sessions s' = sessions s \<and> undisturbed r s s'"
proof -
  obtain res st where rf: "ReadFrame (conn_stream (conns s k)) (MaxFrameLen (cfg E)) = (res, st)"
    by fastforce
  let ?s1 = "s\<lparr>conns := (conns s)(k := (conns s k)\<lparr>c_in := avail st\<rparr>)\<rparr>"
  have disc: "sessions (reader_disconnect q err ?s1) = sessions s \<and>
      undisturbed r s (reader_disconnect q err ?s1)" for err
    using sends_static(1) [OF sends_reader_disconnect, of q err ?s1]
      undisturbed_sends [OF sends_reader_disconnect, of r ?s1 q err]
    by (simp add: undisturbed_def)
  show ?thesis
  proof (cases res)
    case (Inl err)
    then show ?thesis using it disc by (auto simp: reader_iter_def k rf Let_def)
  next
    case (Inr p)
    obtain eq ok where pq: "push (tcp_message q p) (events s) = (eq, ok)" by fastforce
    have "pending r (ch eq) = pending r (ch (events s))"
      using pending_push_message [of "tcp_message q p" r "events s"] pq by (simp add: event_defs)
    with Inr pq show ?thesis
      using it disc by (auto simp: reader_iter_def k rf Let_def undisturbed_def split: if_splits)
  qed
qed

lemma stuck_step:
  assumes inv: "sys_inv z" and st: "stuck r p z" and step: "sys_step E z z'"
  shows "stuck r p z' \<and> disconnects r (calls (srv z')) = disconnects r (calls (srv z))"
proof -
  have tab: "sessions (srv z) p = Some r" and quiet: "pending r (batch z @ ch (events (srv z))) = 0"
    using st by (simp_all add: stuck_def)
  have old: "r < next_ref (srv z)"
    using sys_invD(1) [OF inv] tab table_inv_entry by (fastforce simp: srv_inv_def)
  show ?thesis
    using inv step
  proof (cases rule: sys_step_effect)
    case (accepted remote t q)
    from serveTCPConn_startD [OF this(1)] accepted(2) old st show ?thesis by (simp add: stuck_def)
  next
    case io
    with st show ?thesis by (simp add: stuck_def io_only_def)
  next
    case (tcp_read q k go)
    from reader_iter_quiet [OF this(2,3), of r] tcp_read(4) tab
    show ?thesis by (intro stuck_undisturbed [OF st]) simp_all
  next
    case (udp_read a d)
    then have "sessions (srv z') p = Some r" "undisturbed r (srv z) (srv z')"
      using tab by (simp_all add: udp_iter_def Let_def undisturbed_def pending_push_message event_defs)
    with udp_read(2) show ?thesis by (intro stuck_undisturbed [OF st]) simp_all
  next
    case (start t tc)
    from tick_startD [OF this(2)] start(1) st show ?thesis by (simp add: stuck_def)
  next
    case (handle tc e)
    have srv: "srv_inv (e # batch z') (srv z)" using sys_invD(1) [OF inv] handle(1) by simp
    have e: "kind e \<noteq> eventDisconnect \<or> sess e \<noteq> Some r" using quiet handle(1) by auto
    have "event_wf (next_ref (srv z)) e"
      using srv chan_inv_wf [of "e # batch z'" "srv z" e] by (simp add: srv_inv_def)
    from undisturbed_handleEvent [OF this e] sessions_handleEvent [OF srv tab e] handle e
    show ?thesis by (intro stuck_undisturbed [OF st]) auto
  next
    case (finish tc)
    from finish tab show ?thesis
      by (intro stuck_undisturbed [OF st])
        (simp_all add: undisturbed_sends sends_tick_finish sends_static(1) [OF sends_tick_finish])
  qed
qed

interpretation stays_stuck: preserved
  "\<lambda>z. env_ok E \<longrightarrow> sys_inv z \<and> stuck r p z \<and> disconnects r (calls (srv z)) = n" "sys_step E"
  for E r p n
  by unfold_locales (metis stuck_step sys_inv_step)

lemma stuck_run:
  assumes "env_ok E" "sys_inv z" "stuck r p z" "rtranclp (sys_step E) z z'"
  shows "stuck r p z' \<and> disconnects r (calls (srv z')) = disconnects r (calls (srv z))"
  using stays_stuck.run_keeps [where E = E and r = r and p = p, OF assms(4)] assms(1-3) by blast

section \<open>How a session gets stuck\<close>

lemma reader_full:
  assumes "tcp (heap s r) = Some k" "length (ch (events s)) = depth (events s)"
    and "\<not> fired (disconnectOnce (heap s r))" "reader_iter E r s = (go, s')"
  shows "\<not> go \<and> sessions s' = sessions s \<and> events s' = events s \<and> calls s' = calls s \<and>
    fired (disconnectOnce (heap s' r))"
proof -
  obtain res st where rf: "ReadFrame (conn_stream (conns s k)) (MaxFrameLen (cfg E)) = (res, st)"
    by fastforce
  show ?thesis
    using assms by (cases res)
      (auto simp: reader_iter_def rf reader_disconnect_def once_Do_def upd_sess_def push_def Let_def)
qed

text \<open>
  A login that is handled after its connection was cleaned up: the session has no channel any
  more, so that its disconnect was signalled and its event consumed.
\<close>

lemma late_login_sticks:
  assumes inv: "sys_inv z" and e: "batch z = e # b" "kind e = eventMessage" "\<not> isUDP e" "sess e = Some r"
    and dead: "sendTCP (heap (srv z) r) = None"
    and pre: "authState (heap (srv z) r) = sessionPreLogin"
    and body: "Unmarshal_ClientFrame (pb E) (payload e) = Inr \<lparr>client_Body = Some (ClientFrame_Login lm)\<rparr>"
    and ok: "login_verdict E lm (srv z) = (Inr (creds, p), s1)"
  shows "stuck r p (z\<lparr>srv := handleEvent E tc e (srv z), batch := b\<rparr>)"
proof -
  let ?s = "srv z"
  have c: "chan_inv (batch z) ?s" and t: "table_inv ?s"
    using sys_invD(1) [OF inv] by (simp_all add: srv_inv_def)
  have "\<not> 0 < pending r (batch z @ ch (events ?s))" and fired: "fired (disconnectOnce (heap ?s r))"
    using chan_inv_pos [OF c, of r] chan_inv_once [OF c, of r] dead by blast+
  then have quiet: "pending r (batch z @ ch (events ?s)) = 0" by simp
  have wf: "event_wf (next_ref ?s) e" using chan_inv_wf [OF c, of e] e(1) by simp
  have "handleEvent E tc e ?s = handleLogin E tc r lm ?s"
    using table_inv_prelogin [OF t pre] e pre body
    by (simp add: handleEvent_def dispatchMessage_def resolve_session_def stale_event_def
        route_body_def GetBody_def)
  moreover have "sessions (handleLogin E tc r lm ?s) p = Some r"
  proof -
    obtain token s2 s4 where
        s4: "s4 = register_session r p token s2 \<or>
         (\<exists>g. s4 = record_call (CallOnAuth r) g (register_session r p token s2))"
        and "sends s4 (acceptLogin E r creds p s1)"
      by (rule acceptLogin_steps [of E s1 r p creds])
    from sends_static(1) [OF this(2)] s4 ok show ?thesis by (auto simp: handleLogin_verdict)
  qed
  moreover have "undisturbed r ?s (handleEvent E tc e ?s)"
    by (rule undisturbed_handleEvent [OF wf]) (simp add: e(2))
  ultimately show ?thesis
    using quiet fired e(1) by (auto simp: stuck_def undisturbed_def)
qed

lemma full_queue_sticks:
  assumes inv: "sys_inv z" and tab: "sessions (srv z) p = Some r"
    and full: "length (ch (events (srv z))) = depth (events (srv z))"
    and live: "\<not> fired (disconnectOnce (heap (srv z) r))" and rd: "move E (DoRead r) z = Some z1"
  shows "readers z1 r = ReaderReturned \<and> stuck r p z1 \<and> disconnects r (calls (srv z1)) = 0"
proof -
  obtain k go s where k: "tcp (heap (srv z) r) = Some k" "reader_iter E r (srv z) = (go, s)"
      "z1 = z\<lparr>srv := s, readers := (readers z)(r := if go then ReaderRunning else ReaderReturned)\<rparr>"
    using rd by (auto simp: Let_def split: option.splits prod.splits)
  have c: "chan_inv (batch z) (srv z)" and l: "call_inv (srv z)"
    using sys_invD(1) [OF inv] by (simp_all add: srv_inv_def)
  have "disconnects r (calls (srv z)) = 0"
    using call_inv_disc [OF l, of r] chan_inv_once [OF c live] by auto
  then show ?thesis
    using reader_full [OF k(1) full live k(2)] chan_inv_none_pending [OF c live] tab
    by (auto simp: k(3) stuck_def)
qed

text \<open>
  Locked out: when a session is stuck, then in every continuation it stays in the table,
  \<open>OnDisconnect\<close> is not called for it again, and no login for its player id is accepted.
\<close>

lemma blocked_login:
  assumes "sessions (srv z) p = Some r"
  shows "login_verdict E lm (srv z) \<noteq> (Inr (creds, p), s1)"
  using login_verdict_free [of E lm "srv z" creds p s1]
    login_verdict_state [of E lm "srv z" "Inr (creds, p)" s1] assms by auto

lemma locked_out:
  assumes "env_ok E" "sys_inv z" "stuck r p z" "rtranclp (sys_step E) z z'"
  shows "sessions (srv z') p = Some r \<and>
    disconnects r (calls (srv z')) = disconnects r (calls (srv z)) \<and>
    login_verdict E lm (srv z') \<noteq> (Inr (creds, p), s1)"
proof -
  from stuck_run [OF assms] have "stuck r p z'"
    and same: "disconnects r (calls (srv z')) = disconnects r (calls (srv z))" by simp_all
  then have tab: "sessions (srv z') p = Some r" by (simp add: stuck_def)
  from blocked_login [OF tab] tab same show ?thesis by simp
qed

section \<open>Properties\<close>

text \<open>
  C28 A full event queue strands a player: when the reader of a player's connection has
  anything to report while the event queue is full, it returns with the one disconnect signal
  spent and nothing queued. In every continuation the player stays in the session table, so
  that no login with that player id is accepted, and \<open>OnDisconnect\<close> is never called for the
  session.
\<close>

theorem full_queue_strands_player:
  assumes "env_ok E" "sys_reach E z" "sessions (srv z) p = Some r"
    and "length (ch (events (srv z))) = depth (events (srv z))"
    and "\<not> fired (disconnectOnce (heap (srv z) r))"
    and "move E (DoRead r) z = Some z1" "rtranclp (sys_step E) z1 z2"
  shows "readers z1 r = ReaderReturned \<and> sessions (srv z2) p = Some r \<and>
    disconnects r (calls (srv z2)) = 0 \<and> login_verdict E lm (srv z2) \<noteq> (Inr (creds, p), s1)"
proof -
  note inv = sys_inv_reach [OF assms(1,2)]
  note st = full_queue_sticks [OF inv assms(3-6)]
  have "sys_inv z1" by (rule sys_inv_step [OF assms(1) move_sound [OF assms(6)] inv])
  with locked_out [OF assms(1) _ _ assms(7), of r p] st show ?thesis by simp
qed

text \<open>
  C27 A late login creates a ghost: a \<open>Login\<close> frame that is handled after the disconnect
  of its own connection (the client retries right after a rejected login, and both events are
  drained by one tick) registers the dead session under the player id. In every continuation
  the id stays taken, no login with it is accepted, and \<open>OnDisconnect\<close> is not called for
  the session again.
\<close>

theorem late_login_creates_ghost:
  assumes "env_ok E" "sys_reach E z" "batch z = e # b"
    and "kind e = eventMessage" "\<not> isUDP e" "sess e = Some r" "ticking z = Some tc"
    and "sendTCP (heap (srv z) r) = None" "authState (heap (srv z) r) = sessionPreLogin"
    and "Unmarshal_ClientFrame (pb E) (payload e) = Inr \<lparr>client_Body = Some (ClientFrame_Login lm)\<rparr>"
    and "login_verdict E lm (srv z) = (Inr (creds, p), s1)"
    and "move E DoTickEvent z = Some z1" "rtranclp (sys_step E) z1 z2"
  shows "sessions (srv z2) p = Some r \<and>
    disconnects r (calls (srv z2)) = disconnects r (calls (srv z1)) \<and>
    login_verdict E lm' (srv z2) \<noteq> (Inr (creds', p), s2)"
proof -
  note inv = sys_inv_reach [OF assms(1,2)]
  have z1: "z1 = z\<lparr>srv := handleEvent E tc e (srv z), batch := b\<rparr>"
    using assms(3,7,12) by simp
  have "stuck r p z1"
    unfolding z1 by (rule late_login_sticks [OF inv assms(3-6,8-11)])
  moreover have "sys_inv z1" by (rule sys_inv_step [OF assms(1) move_sound [OF assms(12)] inv])
  ultimately show ?thesis by (intro locked_out [OF assms(1) _ _ assms(13)])
qed

text \<open>
  The run of a client that sends unknown credentials and, before the next tick, the right
  ones: the state in which the late login is about to be handled.
\<close>

definition ghost_run :: "choice list" where
  "ghost_run =
     [DoAccept ''client'' 5, DoNetData 0 [0, 0, 0, 1, 1], DoRead 0, DoTickBegin 10, DoTickEvent,
      DoTickEnd, DoNetData 0 [0, 0, 0, 2, 1, 7], DoRead 0, DoTickBegin 60, DoTickEvent]"

lemma ghost_state:
  obtains z where "sys_reach demo z" "batch z = [tcp_message 0 [1, 7]]"
    "ticking z = Some \<lparr>tc_tick = 2, tc_now = 60\<rparr>" "sendTCP (heap (srv z) 0) = None"
    "authState (heap (srv z) 0) = sessionPreLogin" "sessions (srv z) = Map.empty"
proof -
  have "\<exists>z. moves demo ghost_run (sys_init demo 0) = Some z"
    by (simp add: ghost_run_def evaluation)
  then obtain z where run: "moves demo ghost_run (sys_init demo 0) = Some z" by blast
  show thesis
  proof (rule that [OF moves_reach [OF run]])
    show "batch z = [tcp_message 0 [1, 7]]" "ticking z = Some \<lparr>tc_tick = 2, tc_now = 60\<rparr>"
      "sendTCP (heap (srv z) 0) = None" "authState (heap (srv z) 0) = sessionPreLogin"
      "sessions (srv z) = Map.empty"
      using run by (auto simp: ghost_run_def evaluation)
  qed
qed

lemma late_login_creates_ghost_witness:
  "\<exists>z. sys_reach demo z \<and> sessions (srv z) 7 = Some 0 \<and>
     (\<forall>z'. rtranclp (sys_step demo) z z' \<longrightarrow> sessions (srv z') 7 = Some 0)"
proof -
  obtain z where z: "sys_reach demo z" "batch z = [tcp_message 0 [1, 7]]"
    "ticking z = Some \<lparr>tc_tick = 2, tc_now = 60\<rparr>" "sendTCP (heap (srv z) 0) = None"
    "authState (heap (srv z) 0) = sessionPreLogin" "sessions (srv z) = Map.empty"
    by (rule ghost_state)
  obtain z1 where z1: "move demo DoTickEvent z = Some z1" using z(2,3) by simp
  have v: "login_verdict demo (Some \<lparr>login_credentials = [7]\<rparr>) (srv z) =
      (Inr (Envelope (Num 7), 7), (srv z)\<lparr>game := game (srv z)\<rparr>)"
    using z(6) by (simp add: login_verdict_def GetCredentials_def callAuthenticate_def demo_auth_def)
  have "sessions (srv z') 7 = Some 0" if "rtranclp (sys_step demo) z1 z'" for z'
    using late_login_creates_ghost [OF demo_ok z(1,2) _ _ _ z(3-5) _ v z1 that]
    by (simp add: event_defs)
  moreover have "sys_reach demo z1" by (rule sys_reach.step [OF z(1) move_sound [OF z1]])
  ultimately show ?thesis by blast
qed

text \<open>
  A player logs in; a datagram takes the only place in the queue; the player hangs up.
\<close>

definition full_run :: "choice list" where
  "full_run =
     [DoAccept ''client'' 5, DoNetData 0 [0, 0, 0, 2, 1, 7], DoRead 0, DoTickBegin 10, DoTickEvent,
      DoUDP ''stranger'' [3], DoNetEnd 0 (Sentinel EOF)]"

lemma full_queue_strands_player_witness:
  "\<exists>z. sys_reach tiny z \<and> sessions (srv z) 7 = Some 0 \<and>
     (\<forall>z'. rtranclp (sys_step tiny) z z' \<longrightarrow> sessions (srv z') 7 = Some 0)"
proof -
  have "\<exists>z. moves tiny full_run (sys_init tiny 0) = Some z"
    by (simp add: full_run_def tiny_def evaluation)
  then obtain z where run: "moves tiny full_run (sys_init tiny 0) = Some z" by blast
  have z: "sessions (srv z) 7 = Some 0" "length (ch (events (srv z))) = depth (events (srv z))"
    "\<not> fired (disconnectOnce (heap (srv z) 0))" "\<exists>z1. move tiny (DoRead 0) z = Some z1"
    using run by (auto simp: full_run_def tiny_def evaluation)
  obtain z1 where z1: "move tiny (DoRead 0) z = Some z1" using z(4) by blast
  note reach = moves_reach [OF run]
  have "sessions (srv z') 7 = Some 0" if "rtranclp (sys_step tiny) z1 z'" for z'
    using full_queue_strands_player [OF tiny_ok reach z(1-3) z1 that] by simp
  moreover have "sys_reach tiny z1" by (rule sys_reach.step [OF reach move_sound [OF z1]])
  ultimately show ?thesis by blast
qed

end

