(* ===== verification/Teardown.thy ===== *)
theory Teardown
  imports Lockout
begin

text \<open>
  How sessions end: a queued disconnect takes effect in the next tick, a player with id 0 is
  never taken out of the session table, a UDP address that is reused is lost with its former
  owner, and a writer that looks for its channel too late waits for the end of the server.
\<close>

section \<open>Entries of the session table\<close>

text \<open>Only a session that was not logged in gets an entry.\<close>

lemma new_entry_login:
  assumes "sessions (handleLogin E tc q lm s) p = Some r"
  shows "sessions s p = Some r \<or> r = q"
proof (cases rule: handleLogin_cases [of s E tc q lm])
  case rejected
  with assms show ?thesis by (simp add: sends_static)
next
  case (accepted playerID token s1 s2 s4)
  have "sessions s4 = (sessions s)(playerID \<mapsto> q)"
    using accepted(3) sends_static(1) [OF accepted(1)] by auto
  with assms sends_static(1) [OF accepted(4)] show ?thesis by (auto split: if_splits)
qed

lemma new_entry_handshake: "sessions (handleUDPHandshake E tc a hs s) = sessions s"
proof (cases rule: handleUDPHandshake_cases [of s E tc a hs])
  case rejected
  then show ?thesis by (simp add: sends_static)
next
  case (accepted q t s1 s2)
  have "sessions s1 = sessions s" by (simp add: accepted(4) pair_session_def Let_def)
  with accepted(6) sends_static(1) [OF accepted(5)] show ?thesis by auto
qed

lemma new_entry_route:
  assumes "sessions (route_body E tc e se body s) p = Some r" "sessions s p \<noteq> Some r"
  shows "authState (heap s r) = sessionPreLogin"
proof (cases rule: route_body_cases [of s E tc e se body])
  case sends
  with assms show ?thesis by (simp add: sends_static)
next
  case (login q lm)
  with assms new_entry_login [of E tc q lm s p r] show ?thesis by auto
next
  case (pair a hs)
  with assms show ?thesis by (simp add: new_entry_handshake)
next
  case panic
  with assms show ?thesis by simp
qed

lemma new_entry_event:
  assumes "sessions (handleEvent E tc e s) p = Some r" "sessions s p \<noteq> Some r"
  shows "authState (heap s r) = sessionPreLogin"
proof (cases "kind e")
  case eventMessage
  obtain se s1 where rs: "resolve_session tc e s = (se, s1)" by fastforce
  have same: "sessions s1 = sessions s" "authState (heap s1 r) = authState (heap s r)"
    using resolve_session_facts(2,3) [of tc e s] rs by (auto simp: core_def)
  show ?thesis
    using assms new_entry_route [of E tc e se _ s1 p r] same
    by (auto simp: handleEvent_def eventMessage dispatchMessage_def rs
        sends_static(1) [OF sends_scheduleDisconnect] split: sum.splits if_splits)
next
  case eventConnect
  with assms show ?thesis by (auto simp: handleEvent_def invoke_eq split: option.splits)
next
  case eventDisconnect
  show ?thesis
  proof (cases "sess e")
    case None
    with assms eventDisconnect show ?thesis by (simp add: handleEvent_def cleanupSession_def)
  next
    case (Some q)
    with assms eventDisconnect show ?thesis
      by (auto simp: handleEvent_def cleanupSession_simps(1) split: if_splits)
  qed
qed

section \<open>A disconnect takes effect\<close>

text \<open>Torn down: the channel is gone and the session is not in the table.\<close>

definition torn_down :: "sref \<Rightarrow> 'g server \<Rightarrow> bool" where
  "torn_down r s \<longleftrightarrow> sendTCP (heap s r) = None \<and> authState (heap s r) \<noteq> sessionPreLogin \<and>
     r \<notin> ran (sessions s)"

lemma logged_in_stays:
  assumes "sess_advances x y" "authState x \<noteq> sessionPreLogin"
  shows "authState y \<noteq> sessionPreLogin \<and> ID y = ID x"
  using assms by (cases "authState x"; cases "authState y")
    (simp_all add: sess_advances_def less_eq_sessionAuthState_def)

lemma torn_down_event: "torn_down r s \<Longrightarrow> torn_down r (handleEvent E tc e s)"
proof -
  assume td: "torn_down r s"
  from advances_handleEvent [of s E tc e]
  have adv: "sess_advances (heap s r) (heap (handleEvent E tc e s) r)" by (simp add: advances_def)
  then have "authState (heap (handleEvent E tc e s) r) \<noteq> sessionPreLogin"
    using td logged_in_stays by (auto simp: torn_down_def)
  moreover have "r \<notin> ran (sessions (handleEvent E tc e s))"
    using td new_entry_event [of E tc e s _ r] by (fastforce simp: torn_down_def ran_def)
  ultimately show ?thesis using td adv by (auto simp: torn_down_def sess_advances_def)
qed

lemma torn_down_sends: "torn_down r s \<Longrightarrow> sends s s' \<Longrightarrow> torn_down r s'"
  by (simp add: torn_down_def sends_core sends_static)

lemma torn_down_fold: "torn_down r s \<Longrightarrow> torn_down r (fold (handleEvent E tc) es s)"
  by (induction es arbitrary: s) (auto intro: torn_down_event)

lemma cleanup_tears_down:
  assumes inv: "srv_inv (e # b) s" and e: "kind e = eventDisconnect" "sess e = Some r"
    and auth: "authState (heap s r) \<noteq> sessionPreLogin" "ID (heap s r) \<noteq> 0"
  shows "torn_down r (handleEvent E tc e s)"
proof -
  from inv have t: "table_inv s" by (simp add: srv_inv_def)
  have "p = ID (heap s r)" if "sessions s p = Some r" for p
    using table_inv_entry [OF t that] by simp
  then have "r \<notin> ran ((sessions s)(ID (heap s r) := None))"
    by (auto simp: ran_def split: if_splits)
  with e auth show ?thesis
    by (simp add: torn_down_def handleEvent_def cleanupSession_simps(1,2))
qed

lemma disconnects_mono: "advances s s' \<Longrightarrow> disconnects r (calls s) \<le> disconnects r (calls s')"
  by (auto simp: advances_def)

lemma torn_down_advances:
  assumes "torn_down r s" "sess_advances (heap s r) (heap s' r)" "sessions s' = sessions s"
  shows "torn_down r s'"
  using assms logged_in_stays [OF assms(2)] by (auto simp: torn_down_def sess_advances_def)

text \<open>
  A session whose disconnect is on its way: queued while the tick counter is still \<open>n\<close>, or
  in the batch of the current tick, or already carried out.
\<close>

definition ending :: "sref \<Rightarrow> u64 \<Rightarrow> 'g sys \<Rightarrow> bool" where
  "ending r n z \<longleftrightarrow> authState (heap (srv z) r) \<noteq> sessionPreLogin \<and> ID (heap (srv z) r) \<noteq> 0 \<and>
     (torn_down r (srv z) \<and> 1 \<le> disconnects r (calls (srv z)) \<or> 0 < pending r (batch z) \<or>
      0 < pending r (ch (events (srv z))) \<and> tickCount (srv z) = n)"

lemma ending_undisturbed:
  assumes inv: "sys_inv z" and going: "ending r n z" and later: "sys_later z z'"
    and same: "sessions (srv z') = sessions (srv z)" "undisturbed r (srv z) (srv z')"
      "pending r (batch z') = pending r (batch z)" "tickCount (srv z') = tickCount (srv z)"
  shows "ending r n z'"
proof -
  let ?s = "srv z" and ?s' = "srv z'"
  have c: "chan_inv (batch z) ?s" and t: "table_inv ?s"
    using sys_invD(1) [OF inv] by (simp_all add: srv_inv_def)
  have r: "authState (heap ?s r) \<noteq> sessionPreLogin" "ID (heap ?s r) \<noteq> 0"
    using going by (simp_all add: ending_def)
  then have "r < next_ref ?s" using table_inv_fresh [OF t, of r] by (meson not_le_imp_less)
  then have adv: "sess_advances (heap ?s r) (heap ?s' r)" using later by (simp add: sys_later_def)
  have td: "torn_down r ?s \<Longrightarrow> torn_down r ?s'" using torn_down_advances [OF _ adv same(1)] .
  have q: "0 < pending r (ch (events ?s)) \<Longrightarrow> 0 < pending r (ch (events ?s'))"
    using chan_inv_pos [OF c, of r] same(2) by (simp add: undisturbed_def)
  show ?thesis
    using going logged_in_stays [OF adv r(1)] td q same(2-4) r(2)
    by (auto simp: ending_def undisturbed_def)
qed

lemma ending_event:
  assumes inv: "srv_inv (e # b) s" and cb: "OnDisconnect (cfg E) = Some cb"
    and auth: "authState (heap s r) \<noteq> sessionPreLogin" "ID (heap s r) \<noteq> 0"
    and cases: "torn_down r s \<and> 1 \<le> disconnects r (calls s) \<or> 0 < pending r (e # b) \<or>
      0 < pending r (ch (events s)) \<and> tickCount s = n"
  shows "torn_down r (handleEvent E tc e s) \<and> 1 \<le> disconnects r (calls (handleEvent E tc e s)) \<or>
    0 < pending r b \<or>
    0 < pending r (ch (events (handleEvent E tc e s))) \<and> tickCount (handleEvent E tc e s) = n"
    (is "torn_down r ?s' \<and> _ \<or> _")
proof (cases "kind e = eventDisconnect \<and> sess e = Some r")
  case True
  then have "1 \<le> disconnects r (calls ?s')"
    using cb by (simp add: handleEvent_def cleanupSession_simps)
  then show ?thesis using cleanup_tears_down [OF inv _ _ auth, of E tc] True by simp
next
  case False
  from inv have c: "chan_inv (e # b) s" by (simp add: srv_inv_def)
  have "undisturbed r s ?s'"
    using chan_inv_wf [OF c, of e] False by (intro undisturbed_handleEvent) auto
  then have q: "pending r (ch (events s)) \<le> pending r (ch (events ?s'))"
    using chan_inv_pos [OF c, of r] by (cases "pending r (ch (events s))") (auto simp: undisturbed_def)
  have adv: "advances s ?s'" by (rule advances_handleEvent)
  have "torn_down r s \<Longrightarrow> torn_down r ?s'" by (rule torn_down_event)
  moreover have "pending r (e # b) = pending r b" "tickCount ?s' = tickCount s"
    using False adv by (auto simp: advances_def)
  moreover have "0 < pending r (ch (events s)) \<Longrightarrow> 0 < pending r (ch (events ?s'))"
    by (rule less_le_trans [OF _ q])
  moreover have "1 \<le> disconnects r (calls s) \<Longrightarrow> 1 \<le> disconnects r (calls ?s')"
    by (rule order.trans [OF _ disconnects_mono [OF adv, of r]])
  ultimately show ?thesis using cases by metis
qed

lemma ending_step:
  assumes cb: "OnDisconnect (cfg E) = Some cb" and inv: "sys_inv z" and going: "ending r n z"
    and step: "sys_step E z z'"
  shows "ending r n z'"
proof -
  note later = sys_step_later [OF inv step]
  note undist = ending_undisturbed [OF inv going later]
  have auth: "authState (heap (srv z) r) \<noteq> sessionPreLogin" "ID (heap (srv z) r) \<noteq> 0"
    using going by (simp_all add: ending_def)
  have old: "r < next_ref (srv z)"
    using sys_invD(1) [OF inv] auth(1) table_inv_fresh [of "srv z" r]
    by (meson not_le_imp_less srv_inv_def)
  then have auth': "authState (heap (srv z') r) \<noteq> sessionPreLogin \<and> ID (heap (srv z') r) \<noteq> 0"
    using logged_in_stays [OF _ auth(1), of "heap (srv z') r"] later auth(2)
    by (simp add: sys_later_def)
  show ?thesis
    using inv step
  proof (cases rule: sys_step_effect)
    case (accepted remote t q)
    from serveTCPConn_startD [OF this(1)] accepted(2) old going show ?thesis
      by (auto simp: ending_def torn_down_def)
  next
    case io
    then show ?thesis by (intro undist) (simp_all add: io_only_def undisturbed_def)
  next
    case (tcp_read q k go)
    have "tickCount (srv z') = tickCount (srv z)"
      using srv_inv_reader_iter [OF sys_invD(1) [OF inv] tcp_read(1-3)] by (simp add: advances_def)
    with reader_iter_quiet [OF tcp_read(2,3), of r] tcp_read(4) show ?thesis by (intro undist) simp_all
  next
    case (udp_read a d)
    then show ?thesis
      by (intro undist) (simp_all add: udp_iter_def Let_def undisturbed_def pending_push_message event_defs)
  next
    case (start t tc)
    from tick_startD [OF this(2)] start(1) going show ?thesis
      by (auto simp: ending_def torn_down_def)
  next
    case (handle tc e)
    have "srv_inv (e # batch z') (srv z)" using sys_invD(1) [OF inv] handle(1) by simp
    from ending_event [OF this cb auth, of n tc] going auth' handle show ?thesis
      by (simp add: ending_def)
  next
    case (finish tc)
    then show ?thesis
      by (intro undist)
        (simp_all add: undisturbed_sends sends_tick_finish sends_static [OF sends_tick_finish])
  qed
qed

interpretation keeps_ending: preserved
  "\<lambda>z. env_ok E \<and> OnDisconnect (cfg E) = Some cb \<longrightarrow> sys_inv z \<and> ending r n z" "sys_step E"
  for E cb r n
  by unfold_locales (blast intro: sys_inv_step ending_step)

lemma ending_run:
  assumes "env_ok E" "OnDisconnect (cfg E) = Some cb" "sys_inv z" "ending r n z"
    and "rtranclp (sys_step E) z z'"
  shows "sys_inv z' \<and> ending r n z'"
  using keeps_ending.run_keeps [where E = E and cb = cb and r = r and n = n, OF assms(5)] assms(1-4)
  by blast

lemma ending_done:
  assumes "env_ok E" "OnDisconnect (cfg E) = Some cb" "sys_inv z" "ending r n z"
    and "rtranclp (sys_step E) z z'" "ticking z' = None" "tickCount (srv z') \<noteq> n"
  shows "torn_down r (srv z') \<and> disconnects r (calls (srv z')) = 1"
proof -
  from ending_run [OF assms(1-5)] have inv: "sys_inv z'" and e: "ending r n z'" by simp_all
  have "batch z' = []" by (rule sys_invD(2) [OF inv assms(6)])
  then have "torn_down r (srv z') \<and> 1 \<le> disconnects r (calls (srv z'))"
    using e assms(7) by (simp add: ending_def)
  moreover have "disconnects r (calls (srv z')) \<le> 1"
    using sys_invD(1) [OF inv] call_inv_disc_le by (auto simp: srv_inv_def)
  ultimately show ?thesis by simp
qed

section \<open>The player with id 0\<close>

lemma zero_sticks:
  assumes inv: "sys_inv z" and e: "batch z = e # b" "kind e = eventDisconnect" "sess e = Some r"
    and tab: "sessions (srv z) 0 = Some r"
  shows "stuck r 0 (z\<lparr>srv := handleEvent E tc e (srv z), batch := b\<rparr>)"
proof -
  have c: "chan_inv (e # b) (srv z)" and t: "table_inv (srv z)"
    using sys_invD(1) [OF inv] e(1) by (simp_all add: srv_inv_def)
  have "ID (heap (srv z) r) = 0" using table_inv_entry [OF t tab] by simp
  moreover have "fired (disconnectOnce (heap (srv z) r))" using chan_inv_pos [OF c, of r] e by simp
  moreover have "pending r b + pending r (ch (events (srv z))) = 0"
    using chan_inv_le [OF c, of r] e by simp
  ultimately show ?thesis
    using e tab by (simp add: stuck_def handleEvent_def cleanupSession_simps)
qed

section \<open>Addresses that are used again\<close>

lemma pairing_effect:
  assumes "sessions s (UdpHandshake_GetPlayerId hs) = Some r"
    and "sessionToken (heap s r) = UdpHandshake_GetSessionToken hs"
    and "authState (heap s r) = sessionAwaitingUDP"
  shows "udpSessions (handleUDPHandshake E tc a hs s) = (udpSessions s)(a \<mapsto> r) \<and>
    authState (heap (handleUDPHandshake E tc a hs s) r) = sessionReady \<and>
    session_udpAddr (heap (handleUDPHandshake E tc a hs s) r) = Some a \<and>
    (q \<noteq> r \<longrightarrow> session_udpAddr (heap (handleUDPHandshake E tc a hs s) q) = session_udpAddr (heap s q))"
proof -
  let ?s1 = "pair_session r a (time_Now E (draws s)) (draw s)"
  let ?s2 = "sendUDPHandshakeAck E a True (ID (heap ?s1 r)) ?s1"
  have "udpSessions ?s2 = (udpSessions s)(a \<mapsto> r)" "authState (heap ?s2 r) = sessionReady"
    "session_udpAddr (heap ?s2 r) = Some a"
    "q \<noteq> r \<Longrightarrow> session_udpAddr (heap ?s2 q) = session_udpAddr (heap s q)"
    by (simp_all add: sends_static [OF sends_ack] sends_core [OF sends_ack])
  then show ?thesis
    using assms by (simp add: handleUDPHandshake_def Let_def invoke_eq split: option.split)
qed

section \<open>Writers without a channel\<close>

text \<open>The writer is about to look for, or waits on, a channel that is gone.\<close>

definition writer_waits :: "sref \<Rightarrow> 'g sys \<Rightarrow> bool" where
  "writer_waits r z \<longleftrightarrow> r < next_ref (srv z) \<and> sendTCP (heap (srv z) r) = None \<and>
     (writers z r = WriterTop \<or> writers z r = WriterSelect None) \<and> readers z r \<noteq> ReaderDone"

lemma writer_waits_step:
  assumes inv: "sys_inv z" and w: "writer_waits r z" and step: "sys_step E z z'"
  shows "cancelled z' \<or> writer_waits r z'"
proof -
  have "r < next_ref (srv z') \<and> sendTCP (heap (srv z') r) = None"
    using sys_step_later [OF inv step] w by (auto simp: sys_later_def writer_waits_def sess_advances_def)
  moreover have "cancelled z' \<or>
      (writers z' r = WriterTop \<or> writers z' r = WriterSelect None) \<and> readers z' r \<noteq> ReaderDone"
    using step
  proof cases
    case (accept remote t q s)
    then show ?thesis using w serveTCPConn_startD(1) [OF accept(2)] by (auto simp: writer_waits_def)
  next
    case (write_recv q ko pc s)
    then show ?thesis using w by (auto simp: writer_waits_def writer_recv_def)
  qed (use w in \<open>auto simp: writer_waits_def writer_eval_def\<close>)
  ultimately show ?thesis by (simp add: writer_waits_def)
qed

lemma cancelled_step: "sys_step E z z' \<Longrightarrow> cancelled z \<Longrightarrow> cancelled z'"
  by (erule sys_step.cases) simp_all

interpretation keeps_waiting: preserved
  "\<lambda>z. env_ok E \<longrightarrow> sys_inv z \<and> (cancelled z \<or> writer_waits r z)" "sys_step E" for E r
  by unfold_locales (blast intro: sys_inv_step writer_waits_step [THEN disjE] cancelled_step)

section \<open>Properties\<close>

text \<open>
  C4 A disconnect takes effect: when the disconnect event of a logged-in session (with a player
  id other than 0) is queued, then in every continuation, whatever else happens, once the tick
  after it has ended the session is out of the session table, has no outbound channel, and
  \<open>OnDisconnect\<close>, when configured, was called for it exactly once.
\<close>

theorem disconnect_takes_effect:
  assumes "env_ok E" "sys_reach E z" "OnDisconnect (cfg E) = Some cb"
    and "0 < pending r (ch (events (srv z)))"
    and "authState (heap (srv z) r) \<noteq> sessionPreLogin" "ID (heap (srv z) r) \<noteq> 0"
    and "rtranclp (sys_step E) z z'" "ticking z' = None" "tickCount (srv z') \<noteq> tickCount (srv z)"
  shows "r \<notin> ran (sessions (srv z')) \<and> sendTCP (heap (srv z') r) = None \<and>
    disconnects r (calls (srv z')) = 1"
proof -
  have "ending r (tickCount (srv z)) z" using assms(4-6) by (simp add: ending_def)
  from ending_done [OF assms(1,3) sys_inv_reach [OF assms(1,2)] this assms(7-9)]
  show ?thesis by (simp add: torn_down_def)
qed

lemma disconnect_takes_effect_witness:
  "\<exists>z. sys_reach demo z \<and> sessions (srv z) 7 = None \<and> sendTCP (heap (srv z) 0) = None \<and>
     disconnects 0 (calls (srv z)) = 1 \<and> ID (heap (srv z) 0) = 7"
proof -
  define before where "before = [DoAccept ''client'' 5, DoNetData 0 [0, 0, 0, 2, 1, 7], DoRead 0,
    DoTickBegin 10, DoTickEvent, DoTickEnd, DoNetEnd 0 (Sentinel EOF), DoRead 0]"
  define rest where "rest = [DoTickBegin 60, DoTickEvent, DoTickEnd]"
  have "\<exists>z. moves demo before (sys_init demo 0) = Some z"
    by (simp add: before_def evaluation)
  then obtain z where run: "moves demo before (sys_init demo 0) = Some z" by blast
  have z: "0 < pending 0 (ch (events (srv z)))" "authState (heap (srv z) 0) \<noteq> sessionPreLogin"
    "ID (heap (srv z) 0) = 7" "tickCount (srv z) = 1" "\<exists>z'. moves demo rest z = Some z'"
    using run by (auto simp: before_def rest_def evaluation)
  obtain z' where run': "moves demo rest z = Some z'" using z(5) by blast
  have z': "ticking z' = None" "tickCount (srv z') = 2" "ID (heap (srv z') 0) = 7"
    using run run' by (auto simp: before_def rest_def evaluation)
  have "0 \<notin> ran (sessions (srv z')) \<and> sendTCP (heap (srv z') 0) = None \<and>
      disconnects 0 (calls (srv z')) = 1"
    using disconnect_takes_effect [OF demo_ok moves_reach [OF run] _ z(1,2) _ moves_run [OF run'] z'(1)]
      z z' by simp
  moreover have "sys_reach demo z'" by (rule run_reach [OF moves_run [OF run'] moves_reach [OF run]])
  moreover have "sessions (srv z') 7 = None" using run run' by (auto simp: before_def rest_def evaluation)
  ultimately show ?thesis using z'(3) by blast
qed

text \<open>
  C30 The player id 0 is never given back: when \<open>Authenticate\<close> has returned 0 for a session,
  handling its disconnect leaves it in the session table. In every continuation the entry
  stays, and nobody can log in as player 0.
\<close>

theorem player_zero_never_leaves:
  assumes "env_ok E" "sys_reach E z" "sessions (srv z) 0 = Some r"
    and "ticking z = Some tc" "batch z = e # b" "kind e = eventDisconnect" "sess e = Some r"
    and "move E DoTickEvent z = Some z1" "rtranclp (sys_step E) z1 z2"
  shows "sendTCP (heap (srv z2) r) = None \<and> sessions (srv z2) 0 = Some r \<and>
    login_verdict E lm (srv z2) \<noteq> (Inr (creds, 0), s1)"
proof -
  note inv = sys_inv_reach [OF assms(1,2)]
  have z1: "z1 = z\<lparr>srv := handleEvent E tc e (srv z), batch := b\<rparr>" using assms(4,5,8) by simp
  have inv1: "sys_inv z1" by (rule sys_inv_step [OF assms(1) move_sound [OF assms(8)] inv])
  have "stuck r 0 z1" unfolding z1 by (rule zero_sticks [OF inv assms(5-7,3)])
  with stuck_run [OF assms(1) inv1 _ assms(9)] have "stuck r 0 z2" by blast
  then have tab: "sessions (srv z2) 0 = Some r" by (simp add: stuck_def)
  have "r < next_ref (srv z1)"
    using sys_invD(1) [OF inv] table_inv_entry [OF _ assms(3)] by (simp add: z1 srv_inv_def)
  moreover have "sendTCP (heap (srv z1) r) = None"
    using assms(6,7) by (simp add: z1 handleEvent_def cleanupSession_simps)
  ultimately have "sendTCP (heap (srv z2) r) = None"
    using sys_run_later [OF assms(1) inv1 assms(9)] by (auto simp: sys_later_def sess_advances_def)
  moreover have "login_verdict E lm (srv z2) \<noteq> (Inr (creds, 0), s1)"
    using login_verdict_free [of E lm "srv z2" creds 0 s1]
      login_verdict_state [of E lm "srv z2" "Inr (creds, 0)" s1] tab by auto
  ultimately show ?thesis using tab by simp
qed

lemma player_zero_never_leaves_witness:
  "\<exists>z. sys_reach demo z \<and> sessions (srv z) 0 = Some 0 \<and> sendTCP (heap (srv z) 0) = None \<and>
     (\<forall>z'. rtranclp (sys_step demo) z z' \<longrightarrow> sessions (srv z') 0 = Some 0)"
proof -
  define before where "before = [DoAccept ''client'' 5, DoNetData 0 [0, 0, 0, 2, 1, 0], DoRead 0,
    DoTickBegin 10, DoTickEvent, DoTickEnd, DoNetEnd 0 (Sentinel EOF), DoRead 0, DoTickBegin 60]"
  have "\<exists>z. moves demo before (sys_init demo 0) = Some z" by (simp add: before_def evaluation)
  then obtain z where run: "moves demo before (sys_init demo 0) = Some z" by blast
  have z: "sessions (srv z) 0 = Some 0" "\<exists>tc. ticking z = Some tc"
    "\<exists>e b. batch z = e # b \<and> kind e = eventDisconnect \<and> sess e = Some 0"
    using run by (auto simp: before_def evaluation)
  then obtain tc e b where e: "ticking z = Some tc" "batch z = e # b" "kind e = eventDisconnect"
    "sess e = Some 0" by blast
  obtain z1 where z1: "move demo DoTickEvent z = Some z1" using e by simp
  note reach = moves_reach [OF run]
  note zero = player_zero_never_leaves [OF demo_ok reach z(1) e z1]
  have "sys_reach demo z1" by (rule sys_reach.step [OF reach move_sound [OF z1]])
  moreover have "sessions (srv z1) 0 = Some 0 \<and> sendTCP (heap (srv z1) 0) = None"
    using zero [OF rtranclp.rtrancl_refl] by blast
  moreover have "\<forall>z'. rtranclp (sys_step demo) z1 z' \<longrightarrow> sessions (srv z') 0 = Some 0"
    using zero by blast
  ultimately show ?thesis by blast
qed

text \<open>
  C32 A reused address is lost with its former owner: when a session pairs from an address that
  another session still holds, it becomes ready and the address leads to it; but the later
  cleanup of the former owner removes the address, so that the datagrams of the new one no
  longer find a session while it still counts as paired.
\<close>

theorem reused_address_is_lost:
  assumes "sessions s (UdpHandshake_GetPlayerId hs) = Some r"
    and "sessionToken (heap s r) = UdpHandshake_GetSessionToken hs"
    and "authState (heap s r) = sessionAwaitingUDP"
    and "udpSessions s a = Some q" "q \<noteq> r" "session_udpAddr (heap s q) = Some a"
    and "s1 = handleUDPHandshake E tc a hs s" "s2 = cleanupSession E (Some q) err s1"
  shows "udpSessions s1 a = Some r \<and> authState (heap s2 r) = sessionReady \<and>
    session_udpAddr (heap s2 r) = Some a \<and> udpSessions s2 a = None \<and>
    fst (resolve_session tc' (udp_message d a) s2) = None"
  using pairing_effect [OF assms(1-3), of E tc a q] assms(5,6)
  by (simp add: assms(7,8) cleanupSession_simps resolve_session_def event_defs)

lemma reused_address_is_lost_witness:
  "\<exists>s :: nat server. authState (heap s 0) = sessionReady \<and> session_udpAddr (heap s 0) = Some ''here'' \<and>
     fst (resolve_session (demo_tc 0) (udp_message [3] ''here'') s) = None"
proof -
  define s where "s = (demo_state sessionAwaitingUDP 7 None)\<lparr>
    heap := (heap (demo_state sessionAwaitingUDP 7 None))(1 := demo_session sessionReady 8 (Some ''here'')),
    sessions := [7 \<mapsto> 0, 8 \<mapsto> 1], udpSessions := [''here'' \<mapsto> 1]\<rparr>"
  define hs where "hs = Some \<lparr>hs_player_id = 7, hs_session_token = ''MMMM''\<rparr>"
  define s2 where "s2 = cleanupSession demo (Some 1) None (handleUDPHandshake demo (demo_tc 0) ''here'' hs s)"
  have "authState (heap s2 0) = sessionReady \<and> session_udpAddr (heap s2 0) = Some ''here'' \<and>
      fst (resolve_session (demo_tc 0) (udp_message [3] ''here'') s2) = None"
    using reused_address_is_lost [of s hs 0 "''here''" 1 _ demo "demo_tc 0" s2 None "demo_tc 0" "[3]",
        OF _ _ _ _ _ _ refl s2_def]
    by (simp add: s_def hs_def UdpHandshake_GetPlayerId_def UdpHandshake_GetSessionToken_def)
  then show ?thesis by blast
qed

text \<open>
  C31 A writer can outlive its session: when the cleanup of a session happens while its writer
  is not blocked on the channel (it is between two payloads), the writer next waits on a nil
  channel. In every continuation in which the server is not shut down it never returns, and
  neither does the goroutine that serves the connection.
\<close>

theorem writer_waits_for_shutdown:
  assumes "env_ok E" "sys_reach E z" "r < next_ref (srv z)" "sendTCP (heap (srv z) r) = None"
    and "writers z r = WriterTop" "readers z r \<noteq> ReaderDone"
    and "rtranclp (sys_step E) z z'" "\<not> cancelled z'"
  shows "writers z' r \<noteq> WriterDone \<and> readers z' r \<noteq> ReaderDone"
proof -
  have "writer_waits r z" using assms(3-6) by (simp add: writer_waits_def)
  with keeps_waiting.run_keeps [where E = E and r = r, OF assms(7)]
    sys_inv_reach [OF assms(1,2)] assms(1,8)
  have "writer_waits r z'" by blast
  then show ?thesis by (auto simp: writer_waits_def)
qed

lemma writer_waits_for_shutdown_witness:
  "\<exists>z. sys_reach demo z \<and> disconnects 0 (calls (srv z)) = 1 \<and>
     (\<forall>z'. rtranclp (sys_step demo) z z' \<and> \<not> cancelled z' \<longrightarrow> writers z' 0 \<noteq> WriterDone)"
proof -
  have "\<exists>z. moves demo ghost_run (sys_init demo 0) = Some z"
    by (simp add: ghost_run_def evaluation)
  then obtain z where run: "moves demo ghost_run (sys_init demo 0) = Some z" by blast
  have z: "0 < next_ref (srv z)" "sendTCP (heap (srv z) 0) = None" "writers z 0 = WriterTop"
    "readers z 0 \<noteq> ReaderDone" "disconnects 0 (calls (srv z)) = 1"
    using run by (auto simp: ghost_run_def evaluation)
  note reach = moves_reach [OF run]
  from writer_waits_for_shutdown [OF demo_ok reach z(1-4)] z(5) reach show ?thesis by blast
qed

end

