(* ===== verification/Departed.thy ===== *)
theory Departed
  imports Teardown
begin

text \<open>
  Players who are gone: a silent player is noticed by the keepalive, one who hangs up by the
  reader, and both are taken out by the next tick; and the messages of a departed session that
  are still queued.
\<close>

section \<open>From silence to a queued disconnect\<close>

text \<open>
  \<open>heard r s\<close>: if the disconnect of session \<open>r\<close> has been signalled, its event is queued,
  or the queue is full.
\<close>

definition heard :: "sref \<Rightarrow> 'g server \<Rightarrow> bool" where
  "heard r s \<longleftrightarrow> (fired (disconnectOnce (heap s r)) \<longrightarrow>
     0 < pending r (ch (events s)) \<or> depth (events s) \<le> length (ch (events s)))"

lemma heard_scheduleDisconnect:
  assumes "heard r s"
  shows "heard r (scheduleDisconnect (Some q) err s)"
proof (cases rule: scheduleDisconnect_cases [of s q err])
  case 1
  with assms show ?thesis by simp
next
  case 2
  with assms show ?thesis by (auto simp: heard_def event_defs)
next
  case 3
  then show ?thesis by (simp add: heard_def close_conn_def split: option.split)
qed

lemma heard_sendPing: "heard r (sendPing E q s) = heard r s"
  by (auto simp: heard_def sendPing_def ping_nonce_bytes_def udpSendRaw_def Let_def
      split: option.splits sum.splits)

lemma heard_ping_session: "heard r s \<Longrightarrow> heard r (ping_session E b dl p s)"
  by (simp add: ping_session_def heard_scheduleDisconnect heard_sendPing split: option.split)

lemma heard_ping_loop: "heard r s \<Longrightarrow> heard r (fold (ping_session E b dl) ps s)"
  by (induction ps arbitrary: s) (simp_all add: heard_ping_session)

lemma heard_runPingTick: "heard r s \<Longrightarrow> heard r (runPingTick E tc s)"
  unfolding runPingTick_loop Let_def by (rule heard_ping_loop) (simp add: heard_def)

text \<open>Events only get added, so room at the end means room before.\<close>

lemma room_before:
  assumes "sends s s'" "length (ch (events s')) < depth (events s')"
  shows "length (ch (events s)) < depth (events s)"
proof -
  obtain es where "ch (events s') = ch (events s) @ es" by (rule sends_events [OF assms(1)])
  with assms(2) show ?thesis by (simp add: sends_static(8) [OF assms(1)])
qed

lemma pending_sends:
  assumes "sends s s'" "0 < pending r (ch (events s))"
  shows "0 < pending r (ch (events s'))"
proof -
  obtain es where "ch (events s') = ch (events s) @ es" by (rule sends_events [OF assms(1)])
  with assms(2) show ?thesis by simp
qed

lemma sends_after_keepalive: "sends (runPingTick E tc s) (tick_finish E tc s)"
  by (auto simp: tick_finish_def Let_def intro: sends_invokeOnTick split: option.splits)

lemma silence_queues_disconnect:
  assumes "fired (disconnectOnce (heap (runPingTick E tc s) r))"
    and "\<not> fired (disconnectOnce (heap s r))"
    and "length (ch (events (tick_finish E tc s))) < depth (events (tick_finish E tc s))"
  shows "0 < pending r (ch (events (tick_finish E tc s)))"
proof -
  have "heard r (runPingTick E tc s)" using assms(2) by (intro heard_runPingTick) (simp add: heard_def)
  with assms(1) room_before [OF sends_after_keepalive assms(3)]
  have "0 < pending r (ch (events (runPingTick E tc s)))" by (simp add: heard_def)
  then show ?thesis by (rule pending_sends [OF sends_after_keepalive])
qed

section \<open>A reader that stops\<close>

lemma reader_disconnect_queues:
  assumes "\<not> fired (disconnectOnce (heap s r))" "length (ch (events s)) < depth (events s)"
  shows "0 < pending r (ch (events (reader_disconnect r err s)))"
  using assms by (simp add: reader_disconnect_def once_Do_def Let_def ch_push event_defs upd_sess_def)

lemma reader_stop_signals:
  assumes k: "tcp (heap s r) = Some k" and it: "reader_iter E r s = (False, s')"
    and room: "\<not> fired (disconnectOnce (heap s r))" "length (ch (events s)) < depth (events s)"
  shows "0 < pending r (ch (events s'))" "core (heap s' r) = core (heap s r)" "tickCount s' = tickCount s"
proof -
  obtain res st where rf: "ReadFrame (conn_stream (conns s k)) (MaxFrameLen (cfg E)) = (res, st)"
    by fastforce
  let ?s1 = "s\<lparr>conns := (conns s)(k := (conns s k)\<lparr>c_in := avail st\<rparr>)\<rparr>"
  obtain err where s': "s' = reader_disconnect r err ?s1"
    using it rf k by (auto simp: reader_iter_def Let_def split: sum.splits prod.splits if_splits)
  have "sends ?s1 s'" unfolding s' by (rule sends_reader_disconnect)
  from sends_static(7) [OF this, of r] sends_static(4) [OF this]
  show "core (heap s' r) = core (heap s r)" "tickCount s' = tickCount s" by simp_all
  show "0 < pending r (ch (events s'))"
    unfolding s' by (rule reader_disconnect_queues) (use room in simp_all)
qed

section \<open>Messages of departed sessions\<close>

lemma dispatchUserMessage_calls:
  assumes "ClientMessagePrototype (cfg E) = Some proto" "decode_into E proto p = Inr msg"
    and "extractOneofBody (pb E) msg = Some inner"
    and "handlerRegistry_lookup (pb E) (handlers E) (Some inner) = Some h"
  shows "calls (dispatchUserMessage E tc r p s) =
    calls s @ [CallHandler r (proto_FullName (pb E) inner)]"
  using assms
  by (simp add: dispatchUserMessage_def invokeClientHandler_def record_call_def Let_def
      split: prod.split outcome.split)

lemma payload_event:
  assumes "kind e = eventMessage" "\<not> isUDP e" "sess e = Some q" "ID (heap s q) \<noteq> 0"
    and "authState (heap s q) = sessionReady"
    and "Unmarshal_ClientFrame (pb E) (payload e) = Inr \<lparr>client_Body = Some (ClientFrame_GamePayload p)\<rparr>"
  shows "handleEvent E tc e s =
    (if sessions s (ID (heap s q)) = None then s else dispatchUserMessage E tc q p s)"
  using assms
  by (simp add: handleEvent_def dispatchMessage_def resolve_session_def stale_event_def
      route_body_def GetBody_def)

section \<open>Properties\<close>

text \<open>
  C5 A dead peer is removed: when, at the end of a tick, a paired player (with an id other than
  0) has not been heard of since the deadline and the queue has room, then in every
  continuation, whatever else happens, once the next tick has ended the session is out of the
  session table, has no outbound channel, and \<open>OnDisconnect\<close>, when configured, was called for
  it exactly once.
\<close>

theorem dead_peer_removed:
  assumes "env_ok E" "sys_reach E z" "OnDisconnect (cfg E) = Some cb"
    and "ticking z = Some tc" "move E DoTickEnd z = Some z1"
    and "sessions (srv z) p = Some r" "p \<noteq> 0" "authState (heap (srv z) r) = sessionReady"
    and "lastSeenUnixNano (heap (srv z) r) < ping_deadline E tc"
    and "\<not> fired (disconnectOnce (heap (srv z) r))"
    and "length (ch (events (srv z1))) < depth (events (srv z1))"
    and "rtranclp (sys_step E) z1 z2" "ticking z2 = None" "tickCount (srv z2) \<noteq> tickCount (srv z)"
  shows "r \<notin> ran (sessions (srv z2)) \<and> sendTCP (heap (srv z2) r) = None \<and>
    disconnects r (calls (srv z2)) = 1"
proof -
  let ?s = "srv z"
  note inv = sys_inv_reach [OF assms(1,2)]
  have t: "table_inv ?s" using sys_invD(1) [OF inv] by (simp add: srv_inv_def)
  have z1: "srv z1 = tick_finish E tc ?s" using assms(4,5) by (auto split: list.splits)
  have "paired ?s p \<noteq> None"
    using table_inv_ready [OF t, of r] assms(6,8) by (auto simp: paired_def)
  then have "fired (disconnectOnce (heap (runPingTick E tc ?s) r))"
    using ping_tick_fired [OF assms(1) table_inv_finite [OF t], of tc r] assms(6,9) by blast
  then have "0 < pending r (ch (events (srv z1)))"
    using silence_queues_disconnect [OF _ assms(10)] assms(11) by (simp add: z1)
  moreover have "ID (heap ?s r) = p" using table_inv_entry [OF t assms(6)] by simp
  ultimately have "ending r (tickCount ?s) z1"
    using assms(7,8) by (simp add: ending_def z1 sends_core [OF sends_tick_finish]
        sends_static(4) [OF sends_tick_finish])
  moreover have "sys_inv z1" by (rule sys_inv_step [OF assms(1) move_sound [OF assms(5)] inv])
  ultimately show ?thesis
    using ending_done [OF assms(1,3) _ _ assms(12-14)] by (simp add: torn_down_def)
qed

lemma dead_peer_removed_witness:
  "\<exists>z. sys_reach demo z \<and> connects 0 (calls (srv z)) = 1 \<and> disconnects 0 (calls (srv z)) = 1 \<and>
     0 \<notin> ran (sessions (srv z)) \<and> c_in (conns (srv z) 0) = []"
proof -
  define before where "before = pairing_run @ [DoTickBegin 40000000000]"
  define rest where "rest = [DoTickBegin 40050000000, DoTickEvent, DoTickEnd]"
  have "\<exists>z. moves demo before (sys_init demo 0) = Some z"
    by (simp add: before_def pairing_run_def evaluation base64_length)
  then obtain z where run: "moves demo before (sys_init demo 0) = Some z" by blast
  have z: "sessions (srv z) 7 = Some 0" "authState (heap (srv z) 0) = sessionReady"
    "\<not> fired (disconnectOnce (heap (srv z) 0))" "lastSeenUnixNano (heap (srv z) 0) < 10000000000"
    "tickCount (srv z) = 3" "\<exists>tc. ticking z = Some tc \<and> tc_now tc = 40000000000"
    "\<exists>z1 z2. move demo DoTickEnd z = Some z1 \<and> moves demo rest z1 = Some z2"
    using run by (auto simp: before_def rest_def pairing_run_def evaluation base64_length)
  obtain tc where tc: "ticking z = Some tc" "tc_now tc = 40000000000" using z(6) by blast
  obtain z1 z2 where run': "move demo DoTickEnd z = Some z1" "moves demo rest z1 = Some z2"
    using z(7) by blast
  have deadline: "ping_deadline demo tc = 10000000000"
    by (simp add: ping_deadline_def tc(2) ping_timeout_def DefaultPingTimeout_def time_Second_def
        time_Add_def time_UnixNano_def int64_def)
  have z2: "length (ch (events (srv z1))) < depth (events (srv z1))" "ticking z2 = None"
    "tickCount (srv z2) = 4" "connects 0 (calls (srv z2)) = 1" "c_in (conns (srv z2) 0) = []"
    using run run' by (auto simp: before_def rest_def pairing_run_def evaluation base64_length connects_def)
  note reach = moves_reach [OF run]
  have "0 \<notin> ran (sessions (srv z2)) \<and> sendTCP (heap (srv z2) 0) = None \<and>
      disconnects 0 (calls (srv z2)) = 1"
    using dead_peer_removed [OF demo_ok reach _ tc(1) run'(1) z(1) _ z(2) _ z(3) z2(1)
        moves_run [OF run'(2)] z2(2)] z(4,5) z2(3) deadline by simp
  moreover have "sys_reach demo z2"
    by (rule run_reach [OF moves_run [OF run'(2)] sys_reach.step [OF reach move_sound [OF run'(1)]]])
  ultimately show ?thesis using z2 by blast
qed

text \<open>
  C6 A player who hangs up is removed: when the reader of a logged-in session (with a player id
  other than 0) stops, be it at the end of the stream, at an error of the connection or at a
  frame above the cap, and the queue has room, then in every continuation, whatever else
  happens, once the next tick has ended the session is out of the session table, has no
  outbound channel, and \<open>OnDisconnect\<close>, when configured, was called for it exactly once.
\<close>

theorem hangup_removed:
  assumes "env_ok E" "sys_reach E z" "OnDisconnect (cfg E) = Some cb"
    and "move E (DoRead r) z = Some z1" "readers z1 r \<noteq> ReaderRunning"
    and "authState (heap (srv z) r) \<noteq> sessionPreLogin" "ID (heap (srv z) r) \<noteq> 0"
    and "\<not> fired (disconnectOnce (heap (srv z) r))"
    and "length (ch (events (srv z))) < depth (events (srv z))"
    and "rtranclp (sys_step E) z1 z2" "ticking z2 = None" "tickCount (srv z2) \<noteq> tickCount (srv z)"
  shows "r \<notin> ran (sessions (srv z2)) \<and> sendTCP (heap (srv z2) r) = None \<and>
    disconnects r (calls (srv z2)) = 1"
proof -
  obtain k where k: "tcp (heap (srv z) r) = Some k" "reader_iter E r (srv z) = (False, srv z1)"
    using assms(4,5) by (auto simp: Let_def split: option.splits prod.splits if_splits)
  note stop = reader_stop_signals [OF k assms(8,9)]
  then have "ending r (tickCount (srv z)) z1"
    using assms(6,7) by (simp add: ending_def core_eq_iff)
  moreover have "sys_inv z1"
    by (rule sys_inv_step [OF assms(1) move_sound [OF assms(4)] sys_inv_reach [OF assms(1,2)]])
  ultimately show ?thesis
    using ending_done [OF assms(1,3) _ _ assms(10-12)] by (simp add: torn_down_def)
qed

lemma hangup_removed_witness:
  "\<exists>z. sys_reach demo z \<and> connects 0 (calls (srv z)) = 1 \<and> disconnects 0 (calls (srv z)) = 1 \<and>
     0 \<notin> ran (sessions (srv z))"
proof -
  define before where "before = pairing_run @ [DoNetEnd 0 (Sentinel EOF)]"
  define rest where "rest = [DoReaderClose 0, DoTickBegin 100, DoTickEvent, DoTickEnd]"
  have "\<exists>z. moves demo before (sys_init demo 0) = Some z"
    by (simp add: before_def pairing_run_def evaluation base64_length)
  then obtain z where run: "moves demo before (sys_init demo 0) = Some z" by blast
  have z: "authState (heap (srv z) 0) \<noteq> sessionPreLogin" "ID (heap (srv z) 0) \<noteq> 0"
    "\<not> fired (disconnectOnce (heap (srv z) 0))" "length (ch (events (srv z))) < depth (events (srv z))"
    "tickCount (srv z) = 2" "\<exists>z1 z2. move demo (DoRead 0) z = Some z1 \<and> moves demo rest z1 = Some z2"
    using run by (auto simp: before_def rest_def pairing_run_def evaluation base64_length)
  obtain z1 z2 where run': "move demo (DoRead 0) z = Some z1" "moves demo rest z1 = Some z2"
    using z(6) by blast
  have z2: "readers z1 0 \<noteq> ReaderRunning" "ticking z2 = None" "tickCount (srv z2) = 3"
    "connects 0 (calls (srv z2)) = 1"
    using run run' by (auto simp: before_def rest_def pairing_run_def evaluation base64_length connects_def)
  note reach = moves_reach [OF run]
  have "0 \<notin> ran (sessions (srv z2)) \<and> sendTCP (heap (srv z2) 0) = None \<and>
      disconnects 0 (calls (srv z2)) = 1"
    using hangup_removed [OF demo_ok reach _ run'(1) z2(1) z(1-4) moves_run [OF run'(2)] z2(2)]
      z(5) z2(3) by simp
  moreover have "sys_reach demo z2"
    by (rule run_reach [OF moves_run [OF run'(2)] sys_reach.step [OF reach move_sound [OF run'(1)]]])
  ultimately show ?thesis using z2 by blast
qed

text \<open>
  C29 A departed session is served when its player is back: a message of a session whose
  \<open>OnDisconnect\<close> has run is dropped when nobody holds its player id, but when the same player
  has logged in again on another connection, the message still reaches the game's handler,
  which is called with the departed session.
\<close>

theorem departed_session_served:
  assumes "env_ok E" "sys_reach E z" "disconnects q (calls (srv z)) = 1"
    and "ticking z = Some tc" "batch z = e # b" "move E DoTickEvent z = Some z1"
    and "kind e = eventMessage" "\<not> isUDP e" "sess e = Some q" "ID (heap (srv z) q) \<noteq> 0"
    and "authState (heap (srv z) q) = sessionReady"
    and "Unmarshal_ClientFrame (pb E) (payload e) = Inr \<lparr>client_Body = Some (ClientFrame_GamePayload p)\<rparr>"
    and "ClientMessagePrototype (cfg E) = Some proto" "decode_into E proto p = Inr msg"
    and "extractOneofBody (pb E) msg = Some inner"
    and "handlerRegistry_lookup (pb E) (handlers E) (Some inner) = Some h"
  shows "sendTCP (heap (srv z) q) = None \<and> calls (srv z1) = calls (srv z) @
      (if sessions (srv z) (ID (heap (srv z) q)) = None then []
       else [CallHandler q (proto_FullName (pb E) inner)])"
proof -
  note inv = sys_inv_reach [OF assms(1,2)]
  have z1: "srv z1 = handleEvent E tc e (srv z)" using assms(4-6) by auto
  have "sendTCP (heap (srv z) q) = None"
    using sys_invD(1) [OF inv] call_inv_disc [of "srv z" q] assms(3) by (simp add: srv_inv_def)
  moreover have "calls (srv z1) = calls (srv z) @
      (if sessions (srv z) (ID (heap (srv z) q)) = None then []
       else [CallHandler q (proto_FullName (pb E) inner)])"
    using payload_event [OF assms(7-12), of tc] dispatchUserMessage_calls [OF assms(13-16)]
    by (simp add: z1)
  ultimately show ?thesis by simp
qed

lemma departed_session_served_witness:
  "\<exists>z. sys_reach demo z \<and> sessions (srv z) 7 = Some 1 \<and> sendTCP (heap (srv z) 0) = None \<and>
     (\<exists>err cs. calls (srv z) = cs @ [CallOnDisconnect 0 err, CallHandler 0 ''demo.Num''])"
proof -
  define before where "before = pairing_run @ [DoNetData 0 [0, 0, 0, 1, 9], DoRead 0, DoTickBegin 110,
    DoTickEvent, DoTickEnd, DoAccept ''again'' 120, DoNetData 1 [0, 0, 0, 2, 1, 7], DoRead 1,
    DoNetData 0 [0, 0, 0, 2, 4, 8], DoRead 0, DoTickBegin 160, DoTickEvent, DoTickEvent]"
  have "\<exists>z. moves demo before (sys_init demo 0) = Some z"
    by (simp add: before_def pairing_run_def evaluation base64_length)
  then obtain z where run: "moves demo before (sys_init demo 0) = Some z" by blast
  have z: "disconnects 0 (calls (srv z)) = 1" "ID (heap (srv z) 0) = 7"
    "authState (heap (srv z) 0) = sessionReady" "sessions (srv z) 7 = Some 1"
    "batch z = [tcp_message 0 [4, 8]]" "\<exists>tc. ticking z = Some tc"
    "\<exists>err cs. calls (srv z) = cs @ [CallOnDisconnect 0 err]"
    using run by (auto simp: before_def pairing_run_def evaluation base64_length disconnects_def)
  obtain tc where tc: "ticking z = Some tc" using z(6) by blast
  obtain z1 where z1: "move demo DoTickEvent z = Some z1" using tc z(5) by simp
  have at: "sendTCP (heap (srv z) 0) = None \<and>
      calls (srv z1) = calls (srv z) @ [CallHandler 0 ''demo.Num'']"
    using departed_session_served [OF demo_ok moves_reach [OF run] z(1) tc z(5) z1, of "[8]" NoMsg
        "Envelope (Num 8)" "Num 8" demo_handler] z(2-4)
    by (simp add: event_defs decode_into_def extractOneofBody_def)
  have "sys_reach demo z1" by (rule sys_reach.step [OF moves_reach [OF run] move_sound [OF z1]])
  moreover have "srv z1 = dispatchUserMessage demo tc 0 [8] (srv z)"
    using payload_event [of "tcp_message 0 [4, 8]" 0 "srv z" demo "[8]" tc] z1 tc z(2-5)
    by (auto simp: event_defs)
  then have "sessions (srv z1) 7 = Some 1 \<and> sendTCP (heap (srv z1) 0) = None"
    using z(4) at by (simp add: sends_static(1) [OF sends_dispatchUserMessage]
        sends_core(6) [OF sends_dispatchUserMessage])
  ultimately show ?thesis using at z(7) by fastforce
qed

end
