(* ===== verification/Shutdown.thy ===== *)
theory Shutdown
  imports Executions Moves
begin

text \<open>
  The shutdown: once the context is cancelled and the connections are closed, the goroutines of
  the connections take a bounded number of further steps and none of them is left behind.
\<close>

section \<open>The goroutines of the connections\<close>

fun conn_choice :: "choice \<Rightarrow> bool" where
  "conn_choice (DoRead r) = True"
| "conn_choice (DoReaderClose r) = True"
| "conn_choice (DoReaderJoin r) = True"
| "conn_choice (DoWriteEval r) = True"
| "conn_choice (DoWriteRecv r) = True"
| "conn_choice (DoWriteFail r) = True"
| "conn_choice (DoWriterCancel r) = True"
| "conn_choice _ = False"

text \<open>The steps that a reader or a writer can still take on a closed connection.\<close>

fun reader_rank :: "reader_pc \<Rightarrow> nat" where
  "reader_rank ReaderRunning = 3"
| "reader_rank ReaderReturned = 2"
| "reader_rank ReaderWaiting = 1"
| "reader_rank _ = 0"

fun writer_rank :: "writer_pc \<Rightarrow> nat" where
  "writer_rank WriterTop = 2"
| "writer_rank (WriterSelect _) = 1"
| "writer_rank WriterDone = 0"

definition rank :: "'g sys \<Rightarrow> sref \<Rightarrow> nat" where
  "rank z r = reader_rank (readers z r) + writer_rank (writers z r)"

definition stopping :: "'g sys \<Rightarrow> bool" where
  "stopping z \<longleftrightarrow> cancelled z \<and> (\<forall>r < next_ref (srv z). c_closed (conns (srv z) r))"

lemma rank_le: "rank z r \<le> 5"
  by (cases "readers z r"; cases "writers z r") (simp_all add: rank_def)

section \<open>Steps on closed connections\<close>

lemma ReadFrame_closed:
  "c_closed c \<Longrightarrow> \<exists>err st. ReadFrame (conn_stream c) m = (Inl err, st)"
  by (simp add: conn_stream_def ReadFrame_short_header)

lemma reader_iter_closed:
  assumes "tcp (heap s r) = Some k" "c_closed (conns s k)" "reader_iter E r s = (go, s')"
  shows "\<not> go \<and> (\<forall>k. c_closed (conns s' k) = c_closed (conns s k))"
proof -
  obtain err st where rf: "ReadFrame (conn_stream (conns s k)) (MaxFrameLen (cfg E)) = (Inl err, st)"
    using ReadFrame_closed [OF assms(2)] by blast
  show ?thesis
    using assms(3) by (auto simp: reader_iter_def assms(1) rf reader_disconnect_def Let_def upd_sess_def
        split: prod.splits if_splits)
qed

lemma writer_recv_closed:
  assumes "tcp (heap s r) = Some k" "c_closed (conns s k)" "writer_recv r ko s = Some (pc, s')"
  shows "pc = WriterDone \<and> (\<forall>k. c_closed (conns s' k) = c_closed (conns s k))"
  using assms by (auto simp: writer_recv_def Let_def WriteFrame_def conn_Write_def
      split: option.splits list.splits if_splits)

text \<open>The steps change the rank of one connection only, and lower it.\<close>

lemma conn_choice_step:
  assumes inv: "sys_inv z" and stop: "stopping z" and c: "conn_choice c" "move E c z = Some z'"
  shows "\<exists>r < next_ref (srv z). rank z' r < rank z r \<and> (\<forall>q. q \<noteq> r \<longrightarrow> rank z' q = rank z q) \<and>
    (\<forall>k. c_closed (conns (srv z) k) \<longrightarrow> c_closed (conns (srv z') k)) \<and> cancelled z'"
proof -
  note used = sys_invD(5,6) [OF inv]
  have conn: "tcp (heap (srv z) r) = Some r \<and> c_closed (conns (srv z) r)" if "r < next_ref (srv z)" for r
    using that sys_invD(4) [OF inv] stop by (simp add: stopping_def)
  have can: "cancelled z" using stop by (simp add: stopping_def)
  show ?thesis
  proof (cases c)
    case (DoRead r)
    with c have run: "readers z r = ReaderRunning"
      by (auto simp: Let_def split: option.splits prod.splits)
    then have r: "r < next_ref (srv z)" using used(1) by simp
    obtain go s where it: "reader_iter E r (srv z) = (go, s)" by fastforce
    from reader_iter_closed [OF _ _ it] conn [OF r] DoRead c it run r can show ?thesis
      by (intro exI [of _ r]) (auto simp: Let_def rank_def)
  next
    case (DoReaderClose r)
    with c can used(1) [of r] show ?thesis
      by (intro exI [of _ r]) (auto simp: rank_def close_conn_def split: option.splits)
  next
    case (DoReaderJoin r)
    with c can used(1) [of r] show ?thesis by (intro exI [of _ r]) (auto simp: rank_def)
  next
    case (DoWriteEval r)
    with c can used(2) [of r] show ?thesis
      by (intro exI [of _ r]) (auto simp: rank_def writer_eval_def)
  next
    case (DoWriteRecv r)
    with c obtain ko pc s where w: "writers z r = WriterSelect ko" "writer_recv r ko (srv z) = Some (pc, s)"
        "z' = z\<lparr>srv := s, writers := (writers z)(r := pc)\<rparr>"
      by (auto split: writer_pc.splits)
    then have r: "r < next_ref (srv z)" using used(2) [of r] by simp
    from writer_recv_closed [OF _ _ w(2)] conn [OF r] w r can show ?thesis
      by (intro exI [of _ r]) (auto simp: rank_def)
  next
    case (DoWriteFail r)
    with c can used(2) [of r] show ?thesis
      by (intro exI [of _ r]) (auto simp: rank_def split: writer_pc.splits option.splits list.splits)
  next
    case (DoWriterCancel r)
    with c can used(2) [of r] show ?thesis
      by (intro exI [of _ r]) (cases "writers z r"; auto simp: rank_def)
  qed (use c in simp_all)
qed

lemma conn_choice_next_ref:
  assumes inv: "sys_inv z" and c: "conn_choice c" "move E c z = Some z'"
  shows "next_ref (srv z') = next_ref (srv z)"
proof (cases c)
  case (DoRead r)
  with c obtain k go s where k: "tcp (heap (srv z) r) = Some k" "readers z r = ReaderRunning"
      "reader_iter E r (srv z) = (go, s)" "srv z' = s"
    by (auto simp: Let_def split: option.splits prod.splits)
  have "r < next_ref (srv z)" using sys_invD(5) [OF inv, of r] k(2) by simp
  from srv_inv_reader_iter [OF sys_invD(1) [OF inv] this k(1,3)] k(4) show ?thesis
    by (simp add: advances_def)
next
  case (DoWriteRecv r)
  with c obtain ko pc s where w: "writers z r = WriterSelect ko" "writer_recv r ko (srv z) = Some (pc, s)"
      "srv z' = s"
    by (auto split: writer_pc.splits)
  have "tcp (heap (srv z) r) \<noteq> None" using sys_invD(4,6) [OF inv, of r] w(1) by simp
  from io_only_writer_recv [OF w(2) this] w(3) show ?thesis by (simp add: io_only_def)
qed (use c in \<open>auto simp: close_conn_def split: option.splits writer_pc.splits list.splits\<close>)

lemma rank_sum_less:
  assumes "r < (n :: nat)" "f r < (g r :: nat)" "\<And>q. q \<noteq> r \<Longrightarrow> f q = g q"
  shows "(\<Sum>q < n. f q) < (\<Sum>q < n. g q)"
proof -
  have "f q \<le> g q" for q using assms(2,3) by (cases "q = r") simp_all
  with assms(1,2) show ?thesis by (intro sum_strict_mono_ex1) auto
qed

lemma conn_choices_bounded:
  assumes "env_ok E"
  shows "sys_inv z \<Longrightarrow> stopping z \<Longrightarrow> list_all conn_choice cs \<Longrightarrow> moves E cs z = Some z' \<Longrightarrow>
    sys_inv z' \<and> stopping z' \<and> next_ref (srv z') = next_ref (srv z) \<and>
    length cs + (\<Sum>r < next_ref (srv z). rank z' r) \<le> (\<Sum>r < next_ref (srv z). rank z r)"
proof (induction cs arbitrary: z)
  case (Cons c cs)
  then obtain z1 where c: "conn_choice c" "move E c z = Some z1" and cs: "moves E cs z1 = Some z'"
    by (auto split: option.splits)
  obtain r where r: "r < next_ref (srv z)" "rank z1 r < rank z r" "\<And>q. q \<noteq> r \<Longrightarrow> rank z1 q = rank z q"
    and closed: "\<And>k. c_closed (conns (srv z) k) \<Longrightarrow> c_closed (conns (srv z1) k)" "cancelled z1"
    using conn_choice_step [OF Cons.prems(1,2) c] by blast
  note same = conn_choice_next_ref [OF Cons.prems(1) c]
  have "stopping z1" using Cons.prems(2) closed by (simp add: stopping_def same)
  moreover have "sys_inv z1" by (rule sys_inv_step [OF assms move_sound [OF c(2)] Cons.prems(1)])
  moreover have "list_all conn_choice cs" using Cons.prems(3) by simp
  ultimately have "sys_inv z' \<and> stopping z' \<and> next_ref (srv z') = next_ref (srv z1) \<and>
      length cs + (\<Sum>r < next_ref (srv z1). rank z' r) \<le> (\<Sum>r < next_ref (srv z1). rank z1 r)"
    using Cons.IH cs by blast
  moreover have "(\<Sum>r < next_ref (srv z). rank z1 r) < (\<Sum>r < next_ref (srv z). rank z r)"
    using r by (intro rank_sum_less [of r _ "rank z1" "rank z"])
  ultimately show ?case by (simp add: same)
qed simp

text \<open>A goroutine that has not returned can move.\<close>

lemma conn_progress:
  assumes inv: "sys_inv z" and stop: "stopping z"
    and stuck: "\<And>c. conn_choice c \<Longrightarrow> move E c z = None"
  shows "(readers z r = ReaderNone \<or> readers z r = ReaderDone) \<and> writers z r = WriterDone"
proof (cases "r < next_ref (srv z)")
  case True
  then have conn: "tcp (heap (srv z) r) = Some r" "c_closed (conns (srv z) r)" "cancelled z"
    using sys_invD(4) [OF inv] stop by (auto simp: stopping_def)
  have "writers z r = WriterDone"
    using stuck [of "DoWriterCancel r"] conn(3) by (simp add: guarded_def split: if_splits)
  moreover have "readers z r \<noteq> ReaderRunning"
    using stuck [of "DoRead r"] conn(1,2)
    by (auto simp: guarded_def frame_ready_def Let_def split: prod.splits if_splits)
  moreover have "readers z r \<noteq> ReaderReturned"
    using stuck [of "DoReaderClose r"] by (simp add: guarded_def split: if_splits)
  moreover have "readers z r \<noteq> ReaderWaiting"
    using stuck [of "DoReaderJoin r"] calculation(1) by (simp add: guarded_def split: if_splits)
  ultimately show ?thesis by (cases "readers z r") simp_all
next
  case False
  then show ?thesis using sys_invD(5,6) [OF inv, of r] by auto
qed

section \<open>Properties\<close>

text \<open>
  C14 The shutdown drains the connections: once the context is cancelled and the watchers have
  closed the connections, the readers and writers together take at most five more steps per
  connection ever accepted, in whatever order; and when none of them can move any more, all of
  them have returned: none is blocked for ever.
\<close>

theorem shutdown_drains:
  assumes "env_ok E" "sys_reach E z" "stopping z" "list_all conn_choice cs" "moves E cs z = Some z'"
  shows "length cs \<le> 5 * next_ref (srv z) \<and>
    ((\<forall>c. conn_choice c \<longrightarrow> move E c z' = None) \<longrightarrow>
      (\<forall>r. (readers z' r = ReaderNone \<or> readers z' r = ReaderDone) \<and> writers z' r = WriterDone))"
proof -
  note run = conn_choices_bounded [OF assms(1) sys_inv_reach [OF assms(1,2)] assms(3-5)]
  have "(\<Sum>r < next_ref (srv z). rank z r) \<le> (\<Sum>r < next_ref (srv z). 5)"
    by (intro sum_mono) (rule rank_le)
  then have "length cs \<le> 5 * next_ref (srv z)" using run by simp
  then show ?thesis using run conn_progress [of z' E] by blast
qed

lemma shutdown_drains_witness:
  "\<exists>z. sys_reach demo z \<and> cancelled z \<and> readers z 0 = ReaderDone \<and> writers z 0 = WriterDone \<and>
     connects 0 (calls (srv z)) = 1"
proof -
  define before where "before = pairing_run @ [DoCancel, DoWatcherClose 0]"
  define rest where "rest = [DoRead 0, DoWriteEval 0, DoReaderClose 0, DoWriterCancel 0, DoReaderJoin 0]"
  have "\<exists>z. moves demo before (sys_init demo 0) = Some z"
    by (simp add: before_def pairing_run_def evaluation base64_length)
  then obtain z where run: "moves demo before (sys_init demo 0) = Some z" by blast
  have z: "stopping z" "connects 0 (calls (srv z)) = 1" "\<exists>z'. moves demo rest z = Some z'"
    using run by (auto simp: before_def rest_def pairing_run_def evaluation base64_length stopping_def
        connects_def)
  then obtain z' where run': "moves demo rest z = Some z'" by blast
  have "list_all conn_choice rest" by (simp add: rest_def)
  note drained = shutdown_drains [OF demo_ok moves_reach [OF run] z(1) this run']
  have z': "readers z' 0 = ReaderDone" "writers z' 0 = WriterDone" "cancelled z'"
    "connects 0 (calls (srv z')) = 1" "next_ref (srv z) = 1"
    using run run' by (auto simp: before_def rest_def pairing_run_def evaluation base64_length
        connects_def)
  have "length rest \<le> 5 * next_ref (srv z)" using drained by blast
  moreover have "sys_reach demo z'" by (rule run_reach [OF moves_run [OF run'] moves_reach [OF run]])
  ultimately show ?thesis using z' by blast
qed

end
