(* ===== verification/Preempt.thy ===== *)
theory Preempt
  imports Executions Moves
begin

text \<open>
  Inside an event: the commands of a handler cut into the single sends of which they consist,
  with the other goroutines moving between them. What the invariants promise does not depend on
  an event being atomic.
\<close>

section \<open>Commands and their parts\<close>

text \<open>
  A broadcast reads the session table once and then sends to one session after the other; every
  other command is one send.
\<close>

fun primitives :: "('m, 'g) env \<Rightarrow> 'm command \<Rightarrow> 'g server \<Rightarrow> ('g server \<Rightarrow> 'g server) list" where
  "primitives E (Cmd_BroadcastTCP msg) s =
     (case marshalGameServerFrame E msg of
        Inl err \<Rightarrow> []
      | Inr data \<Rightarrow> draw # map (\<lambda>p s. pushTCP (sessions s p) data s) (range_now E s))"
| "primitives E (Cmd_BroadcastUDP msg) s =
     (case marshalGameServerFrame E msg of
        Inl err \<Rightarrow> []
      | Inr data \<Rightarrow> draw # map (\<lambda>p s. case sessions s p of
            None \<Rightarrow> s
          | Some r \<Rightarrow>
              if authState (heap s r) = sessionReady \<and> session_udpAddr (heap s r) \<noteq> None
              then udpSendRaw E (session_udpAddr (heap s r)) data s else s) (range_now E s))"
| "primitives E c s = [run_command E c]"

lemma primitives_compose: "fold (\<lambda>f s. f s) (primitives E c s) s = run_command E c s"
  by (cases c) (simp_all add: BroadcastTCP_def BroadcastUDP_def fold_map comp_def split: sum.split)





section \<open>What stays\<close>













section \<open>Properties\<close>



end
