(* ===== verification/Wire.thy ===== *)
theory Wire
  imports Tcp Scenario
begin

text \<open>
  The TCP connection as a channel of payloads: what the reader makes of the bytes that arrive,
  and what the peer gets of the payloads that the writer takes from the outbound queue.
\<close>

section \<open>Loops of the two goroutines\<close>

text \<open>\<open>n\<close> iterations of the reader, while it goes on.\<close>

fun reader_loop :: "('m, 'g) env \<Rightarrow> nat \<Rightarrow> sref \<Rightarrow> 'g server \<Rightarrow> bool \<times> 'g server" where
  "reader_loop E 0 r s = (True, s)"
| "reader_loop E (Suc n) r s =
     (case reader_iter E r s of
        (True, s1) \<Rightarrow> reader_loop E n r s1
      | (False, s1) \<Rightarrow> (False, s1))"

text \<open>\<open>n\<close> payloads taken from the queue and written, while the writer neither blocks nor ends.\<close>

fun writer_loop :: "nat \<Rightarrow> sref \<Rightarrow> 'g server \<Rightarrow> 'g server option" where
  "writer_loop 0 r s = Some s"
| "writer_loop (Suc n) r s =
     (case writer_eval r s of
        WriterSelect ko \<Rightarrow>
          (case writer_recv r ko s of
             Some (WriterTop, s1) \<Rightarrow> writer_loop n r s1
           | _ \<Rightarrow> None)
      | _ \<Rightarrow> None)"

section \<open>Lemmas\<close>

lemma reader_iter_frame:
  assumes k: "tcp (heap s r) = Some k" and up: "\<not> c_closed (conns s k)"
    and arrived: "c_in (conns s k) = encode_frame p @ rest" and short: "length p < 2 ^ 32"
    and fits: "MaxFrameLen (cfg E) \<noteq> 0 \<Longrightarrow> length p \<le> unat (MaxFrameLen (cfg E))"
    and room: "length (ch (events s)) < depth (events s)"
  shows "reader_iter E r s = (True, s\<lparr>conns := (conns s)(k := (conns s k)\<lparr>c_in := rest\<rparr>),
    events := (events s)\<lparr>ch := ch (events s) @ [tcp_message r p]\<rparr>\<rparr>)"
proof -
  let ?i = "conn_stream (conns s k)"
  have "ReadFrame ?i (MaxFrameLen (cfg E)) = (Inr p, ?i\<lparr>avail := rest\<rparr>)"
    using arrived up short fits by (intro ReadFrame_encoded) (simp_all add: conn_stream_def)
  then show ?thesis using room by (simp add: reader_iter_def k push_def)
qed

lemma writer_recv_payload:
  assumes "tcp (heap s r) = Some c" "\<not> c_closed (conns s c)" "buf (chans s k) = p # ps"
  shows "writer_recv r (Some k) s =
    Some (WriterTop, s\<lparr>chans := (chans s)(k := (chans s k)\<lparr>buf := ps\<rparr>),
      conns := (conns s)(c := (conns s c)\<lparr>c_out := c_out (conns s c) @ encode_frame p\<rparr>)\<rparr>)"
  using assms by (simp add: writer_recv_def WriteFrame_def conn_Write_def encode_frame_def)

lemma reader_loop_frames:
  assumes "tcp (heap s r) = Some k" "\<not> c_closed (conns s k)"
    and "c_in (conns s k) = concat (map encode_frame ps) @ rest"
    and "\<And>p. p \<in> set ps \<Longrightarrow> length p < 2 ^ 32"
    and "\<And>p. p \<in> set ps \<Longrightarrow> MaxFrameLen (cfg E) \<noteq> 0 \<Longrightarrow> length p \<le> unat (MaxFrameLen (cfg E))"
    and "length (ch (events s)) + length ps \<le> depth (events s)"
  shows "reader_loop E (length ps) r s = (True, s\<lparr>
      conns := (conns s)(k := (conns s k)\<lparr>c_in := rest\<rparr>),
      events := (events s)\<lparr>ch := ch (events s) @ map (tcp_message r) ps\<rparr>\<rparr>)"
  using assms
proof (induction ps arbitrary: s)
  case Nil
  then have "(conns s k)\<lparr>c_in := rest\<rparr> = conns s k" by (intro conn.equality) simp_all
  then show ?case by simp
next
  case (Cons p ps)
  have "reader_iter E r s = (True, s\<lparr>
      conns := (conns s)(k := (conns s k)\<lparr>c_in := concat (map encode_frame ps) @ rest\<rparr>),
      events := (events s)\<lparr>ch := ch (events s) @ [tcp_message r p]\<rparr>\<rparr>)"
    using Cons.prems by (intro reader_iter_frame) simp_all
  moreover note Cons.IH [of "s\<lparr>
      conns := (conns s)(k := (conns s k)\<lparr>c_in := concat (map encode_frame ps) @ rest\<rparr>),
      events := (events s)\<lparr>ch := ch (events s) @ [tcp_message r p]\<rparr>\<rparr>"]
  ultimately show ?case using Cons.prems by (simp cong: if_cong)
qed

lemma writer_loop_payloads:
  assumes "sendTCP (heap s r) = Some k" "tcp (heap s r) = Some c" "\<not> c_closed (conns s c)"
    and "buf (chans s k) = ps @ rest"
  shows "\<exists>s'. writer_loop (length ps) r s = Some s' \<and> buf (chans s' k) = rest \<and> heap s' = heap s \<and>
    c_out (conns s' c) = c_out (conns s c) @ concat (map encode_frame ps)"
  using assms
proof (induction ps arbitrary: s)
  case (Cons p ps)
  let ?s1 = "s\<lparr>chans := (chans s)(k := (chans s k)\<lparr>buf := ps @ rest\<rparr>),
      conns := (conns s)(c := (conns s c)\<lparr>c_out := c_out (conns s c) @ encode_frame p\<rparr>)\<rparr>"
  have "writer_loop (length (p # ps)) r s = writer_loop (length ps) r ?s1"
    using Cons.prems by (simp add: writer_eval_def writer_recv_payload)
  moreover have "\<exists>s'. writer_loop (length ps) r ?s1 = Some s' \<and> buf (chans s' k) = rest \<and>
      heap s' = heap ?s1 \<and> c_out (conns s' c) = c_out (conns ?s1 c) @ concat (map encode_frame ps)"
    using Cons.prems by (intro Cons.IH) simp_all
  ultimately show ?case by simp
qed simp

section \<open>Properties\<close>

text \<open>
  What arrives is delivered in order: when the bytes that arrived on a session's connection
  are frames as \<open>WriteFrame\<close> writes them, within the server's frame cap, and the event
  queue has room, the reader turns them into one message event each, in order, loses nothing,
  and goes on.
\<close>

lemma reader_delivers_frames:
  assumes "tcp (heap s r) = Some k" "\<not> c_closed (conns s k)"
    and "c_in (conns s k) = concat (map encode_frame ps)"
    and "\<And>p. p \<in> set ps \<Longrightarrow> length p < 2 ^ 32 \<and>
      (MaxFrameLen (cfg E) \<noteq> 0 \<longrightarrow> length p \<le> unat (MaxFrameLen (cfg E)))"
    and "length (ch (events s)) + length ps \<le> depth (events s)"
  shows "\<exists>s'. reader_loop E (length ps) r s = (True, s') \<and>
    ch (events s') = ch (events s) @ map (tcp_message r) ps \<and> c_in (conns s' k) = [] \<and>
    heap s' = heap s"
  using reader_loop_frames [of s r k ps "[]" E] assms by simp

text \<open>
  Round trip through a connection: the payloads waiting in a session's outbound queue are
  written by \<open>n\<close> iterations of the writer, and \<open>ReadFrame\<close> on the peer's side gets
  exactly these payloads back, in order. (The connection is open and nothing was written yet.)
\<close>

lemma writer_round_trip:
  assumes "sendTCP (heap s r) = Some k" "tcp (heap s r) = Some c" "\<not> c_closed (conns s c)"
    and "buf (chans s k) = ps" "c_out (conns s c) = []"
    and "\<And>p. p \<in> set ps \<Longrightarrow> length p < 2 ^ 32 \<and> (maxLen \<noteq> 0 \<longrightarrow> length p \<le> unat maxLen)"
  shows "\<exists>s'. writer_loop (length ps) r s = Some s' \<and> buf (chans s' k) = [] \<and>
    read_frames maxLen \<lparr>avail = c_out (conns s' c), stop = e\<rparr> =
      (ps, errorf_prefix ''godotnet: read frame header: '' e)"
proof -
  from writer_loop_payloads [of s r k c ps "[]"] assms
  obtain s' where "writer_loop (length ps) r s = Some s'" "buf (chans s' k) = []"
      "c_out (conns s' c) = concat (map encode_frame ps)" by auto
  with read_frames_stream [of ps maxLen e] assms(6) show ?thesis by auto
qed

end

