(* ===== verification/Streams.thy ===== *)
theory Streams
  imports Lockout Wire
begin

text \<open>
  A connection from end to end: the bytes that the network delivers on it against the messages
  that the tick goroutine handles, and the payloads put into its outbound channel against the
  bytes that the peer gets, along every execution.
\<close>

section \<open>What a choice delivers, takes and queues\<close>

text \<open>The bytes that the network delivers on a connection.\<close>

fun delivered :: "conn_ref \<Rightarrow> choice \<Rightarrow> bytes" where
  "delivered k (DoNetData k' bs) = (if k' = k then bs else [])"
| "delivered k _ = []"

text \<open>The events that the tick goroutine handles.\<close>

fun taken :: "choice \<Rightarrow> 'g sys \<Rightarrow> event list" where
  "taken DoTickEvent z = take 1 (batch z)"
| "taken _ z = []"

fun handled :: "('m, 'g) env \<Rightarrow> choice list \<Rightarrow> 'g sys \<Rightarrow> event list" where
  "handled E [] z = []"
| "handled E (c # cs) z =
     (case move E c z of None \<Rightarrow> [] | Some z1 \<Rightarrow> taken c z @ handled E cs z1)"



text \<open>The payloads of the messages that came over the connection of a session.\<close>

definition from_conn :: "sref \<Rightarrow> event \<Rightarrow> bool" where
  "from_conn r e \<longleftrightarrow> kind e = eventMessage \<and> \<not> isUDP e \<and> sess e = Some r"

definition payloads :: "sref \<Rightarrow> event list \<Rightarrow> bytes list" where
  "payloads r es = map payload (filter (from_conn r) es)"

definition waiting :: "sref \<Rightarrow> 'g sys \<Rightarrow> bytes list" where
  "waiting r z = payloads r (batch z @ ch (events (srv z)))"

definition frames :: "bytes list \<Rightarrow> bytes" where
  "frames ps = concat (map encode_frame ps)"

lemma payloads_simps [simp]:
  "payloads r [] = []" "payloads r (es @ fs) = payloads r es @ payloads r fs"
  "payloads r (e # es) = (if from_conn r e then payload e # payloads r es else payloads r es)"
  by (simp_all add: payloads_def)

lemma frames_simps [simp]:
  "frames [] = []" "frames (ps @ qs) = frames ps @ frames qs" "frames (p # ps) = encode_frame p @ frames ps"
  by (simp_all add: frames_def)

lemma from_conn_events [simp]:
  "from_conn r (tcp_message q p) \<longleftrightarrow> q = r" "\<not> from_conn r (udp_message d a)"
  "\<not> from_conn r (disconnect_event q err)"
  by (auto simp: from_conn_def event_defs)

section \<open>Steps that carry the streams\<close>

text \<open>
  The tick goroutine reads and writes no connection, queues no messages, and takes nothing out
  of the outbound channels.
\<close>

definition carries :: "'g server \<Rightarrow> 'g server \<Rightarrow> bool" where
  "carries s s' \<longleftrightarrow>
     (\<exists>es. ch (events s') = ch (events s) @ es \<and> (\<forall>r. payloads r es = [])) \<and>
     (\<forall>k. c_in (conns s' k) = c_in (conns s k) \<and> c_out (conns s' k) = c_out (conns s k) \<and>
       (\<exists>ps. buf (chans s' k) = buf (chans s k) @ ps))"

lemma carriesE:
  assumes "carries s s'"
  obtains "\<And>r. payloads r (ch (events s')) = payloads r (ch (events s))"
    "\<And>k. c_in (conns s' k) = c_in (conns s k)" "\<And>k. c_out (conns s' k) = c_out (conns s k)"
    "\<And>k. buf (chans s' k) = buf (chans s k) @ drop (length (buf (chans s k))) (buf (chans s' k))"
proof -
  have "buf (chans s' k) = buf (chans s k) @ drop (length (buf (chans s k))) (buf (chans s' k))" for k
  proof -
    obtain ps where "buf (chans s' k) = buf (chans s k) @ ps" using assms unfolding carries_def by blast
    then show ?thesis by simp
  qed
  with assms that show thesis unfolding carries_def by fastforce
qed

lemma carries_trans:
  assumes "carries s s1" "carries s1 s2"
  shows "carries s s2"
proof -
  obtain es fs where "ch (events s1) = ch (events s) @ es" "\<forall>r. payloads r es = []"
    "ch (events s2) = ch (events s1) @ fs" "\<forall>r. payloads r fs = []"
    using assms unfolding carries_def by blast
  then have "\<exists>es. ch (events s2) = ch (events s) @ es \<and> (\<forall>r. payloads r es = [])" by auto
  moreover have "\<exists>ps. buf (chans s2 k) = buf (chans s k) @ ps" for k
    using assms unfolding carries_def by (metis append.assoc)
  ultimately show ?thesis using assms unfolding carries_def by simp
qed

lemma scheduled_no_payloads: "scheduled s s' es \<Longrightarrow> payloads r es = []"
  by (auto simp: scheduled_def payloads_def filter_empty_conv)

lemma carries_sends:
  assumes "sends s s'"
  shows "carries s s'"
  using sends_events [OF assms] sends_stream [OF assms] sends_buf [OF assms] scheduled_no_payloads
  unfolding carries_def by metis

lemma carries_simps:
  "carries s (register_session q p t s)" "carries s (pair_session q a n s)"
  "carries s (s\<lparr>panicked := True\<rparr>)" "carries s (record_call c g s)"
  by (simp_all add: carries_def register_session_def pair_session_def record_call_def Let_def)

interpretation courier: event_relation carries
  by unfold_locales (rule carries_trans carries_sends carries_simps; assumption)+

lemma close_conn_streams [simp]:
  "c_in (conns (close_conn c s) k) = c_in (conns s k)"
  "c_out (conns (close_conn c s) k) = c_out (conns s k)"
  "chans (close_conn c s) = chans s" "events (close_conn c s) = events s"
  by (simp_all add: close_conn_def split: option.split)

lemma close_chan_streams [simp]:
  "conns (close_chan c s) = conns s" "events (close_chan c s) = events s"
  "buf (chans (close_chan c s) k) = buf (chans s k)"
  by (simp_all add: close_chan_def)

lemma carries_cleanup: "carries s (cleanupSession E (Some q) err s)"
  by (simp add: carries_def cleanupSession_def Let_def invoke_eq record_call_def split: option.split)

lemma carries_handleEvent:
  assumes "event_wf n e"
  shows "carries s (handleEvent E tc e s)"
proof (cases "kind e")
  case eventMessage
  with assms show ?thesis by (rule courier.by_message)
next
  case eventConnect
  with assms show ?thesis by (simp add: event_wf_def)
next
  case eventDisconnect
  with assms carries_cleanup show ?thesis by (auto simp: handleEvent_def event_wf_def split: option.splits)
qed

section \<open>One iteration of a reader\<close>

lemma ReadFrame_consumes:
  assumes "ReadFrame i m = (res, i')"
  shows "\<exists>x. avail i = x @ avail i'"
proof -
  have full: "\<exists>x. avail j = x @ avail j'" if "io_ReadFull n j = (b, j')" for n j b j'
    using that by (auto simp: io_ReadFull_def intro: exI [of _ "take n (avail j)"] split: if_splits)
  obtain b j where b: "io_ReadFull frameHeaderSize i = (b, j)" by fastforce
  from full [OF this] show ?thesis
    using assms full b by (fastforce simp: ReadFrame_def Let_def split: sum.splits prod.splits if_splits)
qed

lemma reader_iter_streams:
  assumes k: "tcp (heap s q) = Some k" and it: "reader_iter E q s = (go, s')"
  obtains ps lost where "c_in (conns s k) = frames ps @ lost @ c_in (conns s' k)"
    "\<And>r. payloads r (ch (events s')) = payloads r (ch (events s)) @ (if r = q then ps else [])"
    "go \<Longrightarrow> lost = []" "\<And>j. j \<noteq> k \<Longrightarrow> c_in (conns s' j) = c_in (conns s j)"
    "\<And>j. c_out (conns s' j) = c_out (conns s j)" "chans s' = chans s"
proof -
  obtain res st where rf: "ReadFrame (conn_stream (conns s k)) (MaxFrameLen (cfg E)) = (res, st)"
    by fastforce
  let ?s1 = "s\<lparr>conns := (conns s)(k := (conns s k)\<lparr>c_in := avail st\<rparr>)\<rparr>"
  obtain x where "avail (conn_stream (conns s k)) = x @ avail st" using ReadFrame_consumes [OF rf] by blast
  then have x: "\<exists>x. c_in (conns s k) = x @ avail st"
    by (auto simp: conn_stream_def split: if_splits)
  have disc: "carries ?s1 (reader_disconnect q err ?s1)" "chans (reader_disconnect q err ?s1) = chans s" for err
    using carries_sends [OF sends_reader_disconnect, of ?s1 q err]
    by (simp_all add: reader_disconnect_def Let_def split: prod.split)
  show thesis
  proof (cases "\<exists>err. (go, s') = (False, reader_disconnect q err ?s1)")
    case True
    then obtain err where s': "s' = reader_disconnect q err ?s1" "\<not> go" by blast
    obtain y where "c_in (conns s k) = y @ avail st" using x by blast
    with disc [of err] s' show thesis
      by (intro that [of "[]" y]) (auto elim!: carriesE)
  next
    case False
    with it rf k obtain p where p: "res = Inr p" "push (tcp_message q p) (events s) = (events s', True)"
      "s' = ?s1\<lparr>events := events s'\<rparr>" "go"
      by (auto simp: reader_iter_def Let_def split: sum.splits prod.splits if_splits)
    have "\<not> c_closed (conns s k)"
      using rf p(1) by (auto simp: conn_stream_def ReadFrame_short_header)
    then have "c_in (conns s k) = encode_frame p @ avail st"
      using ReadFrame_ok_stream(1) [OF rf [unfolded p(1)]] by (simp add: conn_stream_def encode_frame_def)
    moreover have "events s' = (events s)\<lparr>ch := ch (events s) @ [tcp_message q p]\<rparr>"
      using p(2) by (simp add: push_def eq_commute split: if_splits)
    then have "ch (events s') = ch (events s) @ [tcp_message q p]" by simp
    moreover have "c_in (conns s' j) = (if j = k then avail st else c_in (conns s j))"
      "c_out (conns s' j) = c_out (conns s j)" "chans s' = chans s" for j
      by (subst p(3), simp)+
    moreover have "payload (tcp_message q p) = p" by (simp add: event_defs)
    ultimately show thesis by (intro that [of "[p]" "[]"]) simp_all
  qed
qed

section \<open>The inbound stream\<close>

lemma event_wf_batch:
  assumes "sys_inv z" "batch z = e # b"
  shows "event_wf (next_ref (srv z)) e"
  using sys_invD(1) [OF assms(1)] chan_inv_wf [of "batch z" "srv z" e] assms(2) by (simp add: srv_inv_def)

text \<open>
  One choice: messages are taken from the front of those waiting and added at their end, as the
  frames read from the connection.
\<close>

lemma inbound_step:
  assumes inv: "sys_inv z" and r: "r < next_ref (srv z)" and c: "move E c z = Some z'"
  obtains ps lost where "waiting r z @ ps = payloads r (taken c z) @ waiting r z'"
    "c_in (conns (srv z) r) @ delivered r c = frames ps @ lost @ c_in (conns (srv z') r)"
    "readers z r \<noteq> ReaderRunning \<Longrightarrow> ps = [] \<and> lost = [] \<and> readers z' r \<noteq> ReaderRunning"
    "readers z' r = ReaderRunning \<Longrightarrow> lost = []"
proof -
  have fresh: "next_ref (srv z) \<noteq> r" using r by simp
  show thesis
  proof (cases c)
    case (DoAccept remote t)
    from that [of "[]" "[]"] c fresh show thesis
      by (auto simp: DoAccept serveTCPConn_start_def Let_def waiting_def)
  next
    case (DoNetData k bs)
    from that [of "[]" "[]"] c show thesis by (auto simp: DoNetData on_conn_def waiting_def)
  next
    case (DoNetEnd k err)
    from that [of "[]" "[]"] c show thesis by (auto simp: DoNetEnd on_conn_def waiting_def)
  next
    case (DoRead q)
    then obtain go s where q: "tcp (heap (srv z) q) = Some q" "reader_iter E q (srv z) = (go, s)"
        "readers z q = ReaderRunning"
        "z' = z\<lparr>srv := s, readers := (readers z)(q := if go then ReaderRunning else ReaderReturned)\<rparr>"
      using c sys_invD(3) [OF inv, of q] by (auto simp: Let_def split: option.splits prod.splits)
    from q(1,2) obtain ps lost where read: "c_in (conns (srv z) q) = frames ps @ lost @ c_in (conns s q)"
        "\<And>r. payloads r (ch (events s)) = payloads r (ch (events (srv z))) @ (if r = q then ps else [])"
        "go \<Longrightarrow> lost = []" "\<And>j. j \<noteq> q \<Longrightarrow> c_in (conns s j) = c_in (conns (srv z) j)"
      by (rule reader_iter_streams) blast
    show thesis
    proof (cases "r = q")
      case True
      with that [of ps lost] read q DoRead show thesis by (auto simp: waiting_def split: if_splits)
    next
      case False
      with that [of "[]" "[]"] read q DoRead show thesis by (auto simp: waiting_def)
    qed
  next
    case (DoWriteRecv q)
    with c obtain ko pc s where w: "writer_recv q ko (srv z) = Some (pc, s)"
        "z' = z\<lparr>srv := s, writers := (writers z)(q := pc)\<rparr>"
      by (auto split: writer_pc.splits)
    then have "events s = events (srv z)" "c_in (conns s r) = c_in (conns (srv z) r)"
      by (auto simp: writer_recv_def WriteFrame_def conn_Write_def Let_def
          split: option.splits list.splits prod.splits if_splits)
    with that [of "[]" "[]"] w DoWriteRecv show thesis by (auto simp: waiting_def)
  next
    case (DoUDP a d)
    from that [of "[]" "[]"] c show thesis
      by (auto simp: DoUDP udp_iter_def Let_def waiting_def ch_push)
  next
    case (DoTickBegin t)
    obtain tc evs s where st: "tick_start t (srv z) = (tc, evs, s)" by (metis prod_cases3)
    from tick_startD [OF st] that [of "[]" "[]"] c sys_invD(2) [OF inv] show thesis
      by (auto simp: DoTickBegin st waiting_def)
  next
    case DoTickEvent
    with c obtain tc e b where e: "batch z = e # b"
        "z' = z\<lparr>srv := handleEvent E tc e (srv z), batch := b\<rparr>"
      by (auto split: option.splits list.splits)
    from carries_handleEvent [OF event_wf_batch [OF inv e(1)], of "srv z" E tc] show thesis
      by (rule carriesE) (rule that [of "[]" "[]"]; simp add: DoTickEvent e waiting_def)
  next
    case DoTickEnd
    with c obtain tc where e: "batch z = []" "z' = z\<lparr>srv := tick_finish E tc (srv z), ticking := None\<rparr>"
      by (auto split: option.splits list.splits)
    from carries_sends [OF sends_tick_finish, of "srv z" E tc] show thesis
      by (rule carriesE) (rule that [of "[]" "[]"]; simp add: DoTickEnd e waiting_def)
  qed (use c that [of "[]" "[]"] in
      \<open>auto simp: waiting_def split: writer_pc.splits option.splits list.splits if_splits\<close>)
qed

section \<open>The outbound stream\<close>








section \<open>Along an execution\<close>

lemma append_steps:
  "a @ b @ c @ d = e @ f @ l @ g \<Longrightarrow> f @ l @ g @ h = k \<Longrightarrow> a @ b @ c @ d @ h = e @ k"
  "a @ b @ c = e @ f @ g \<Longrightarrow> f @ g @ h = k \<Longrightarrow> a @ b @ c @ h = e @ k"
  by (metis append.assoc)+

text \<open>
  The steps put together: \<open>lost0\<close> is what a reader that has returned had consumed in vain.
\<close>

lemma inbound_run:
  assumes "env_ok E" "moves E cs z = Some z'" "sys_inv z" "r < next_ref (srv z)"
    and "readers z r = ReaderRunning \<Longrightarrow> lost0 = []"
  shows "\<exists>lost. frames (waiting r z) @ lost0 @ c_in (conns (srv z) r) @ concat (map (delivered r) cs) =
      frames (payloads r (handled E cs z) @ waiting r z') @ lost @ c_in (conns (srv z') r) \<and>
    (readers z' r = ReaderRunning \<longrightarrow> lost = [])"
  using assms(2-5)
proof (induction cs arbitrary: z lost0)
  case Nil
  then show ?case by auto
next
  case (Cons c cs)
  then obtain z1 where c: "move E c z = Some z1" "moves E cs z1 = Some z'"
    by (auto split: option.splits)
  obtain ps lost where st: "waiting r z @ ps = payloads r (taken c z) @ waiting r z1"
      "c_in (conns (srv z) r) @ delivered r c = frames ps @ lost @ c_in (conns (srv z1) r)"
      "readers z r \<noteq> ReaderRunning \<Longrightarrow> ps = [] \<and> lost = [] \<and> readers z1 r \<noteq> ReaderRunning"
      "readers z1 r = ReaderRunning \<Longrightarrow> lost = []"
    using inbound_step [OF Cons.prems(2,3) c(1)] by metis
  have lost: "lost0 @ frames ps @ lost = frames ps @ lost0 @ lost"
    using st(3) Cons.prems(4) by (cases "readers z r = ReaderRunning") simp_all
  have "sys_inv z1" by (rule sys_inv_step [OF assms(1) move_sound [OF c(1)] Cons.prems(2)])
  moreover have "r < next_ref (srv z1)"
    using sys_step_later [OF Cons.prems(2) move_sound [OF c(1)]] Cons.prems(3) by (simp add: sys_later_def)
  moreover have "lost0 @ lost = []" if "readers z1 r = ReaderRunning"
    using that st(3,4) Cons.prems(4) by (cases "readers z r = ReaderRunning") simp_all
  ultimately obtain lost1 where rest:
      "frames (waiting r z1) @ (lost0 @ lost) @ c_in (conns (srv z1) r) @ concat (map (delivered r) cs) =
      frames (payloads r (handled E cs z1) @ waiting r z') @ lost1 @ c_in (conns (srv z') r)"
      "readers z' r = ReaderRunning \<longrightarrow> lost1 = []"
    using Cons.IH [OF c(2), of "lost0 @ lost"] by blast
  have "frames (waiting r z) @ lost0 @ c_in (conns (srv z) r) @ delivered r c =
      frames (payloads r (taken c z)) @ frames (waiting r z1) @ (lost0 @ lost) @ c_in (conns (srv z1) r)"
    using arg_cong [OF st(1), of frames] lost st(2) by simp
  from append_steps(1) [OF this rest(1)] rest(2) show ?case
    by (intro exI [of _ lost1]) (simp add: c(1))
qed


section \<open>Properties\<close>

text \<open>
  C9 What a client sends is handled in order, once: along every execution from the acceptance
  of a connection, the bytes that the network delivers on it are the frames of the messages
  handled so far, then of those waiting to be handled, then bytes that are not yet read. No
  message is invented, repeated, reordered or cut. Only a reader that has returned (the stream
  ended, a frame was too long, the event queue was full) leaves a rest that it consumed.
\<close>

theorem tcp_input_in_order:
  assumes "env_ok E" "sys_reach E z" "move E (DoAccept remote t) z = Some z0"
    and "r = next_ref (srv z)" "moves E cs z0 = Some z'"
  shows "\<exists>lost. concat (map (delivered r) cs) =
      frames (payloads r (handled E cs z0) @ waiting r z') @ lost @ c_in (conns (srv z') r) \<and>
    (readers z' r = ReaderRunning \<longrightarrow> lost = [])"
proof -
  note inv = sys_inv_reach [OF assms(1,2)]
  have z0: "srv z0 = snd (serveTCPConn_start E remote t (srv z))" "batch z0 = batch z"
    "readers z0 r = ReaderRunning"
    using assms(3,4) by (auto simp: serveTCPConn_start_def Let_def)
  have "e \<in> set (batch z @ ch (events (srv z))) \<Longrightarrow> \<not> from_conn r e" for e
    using sys_invD(1) [OF inv] chan_inv_wf [of "batch z" "srv z" e] assms(4)
    by (auto simp: srv_inv_def from_conn_def event_wf_def)
  then have "waiting r z0 = []"
    unfolding waiting_def payloads_def z0 by (simp add: serveTCPConn_start_def Let_def filter_empty_conv)
  moreover have "c_in (conns (srv z0) r) = []" "r < next_ref (srv z0)"
    by (simp_all add: z0 serveTCPConn_start_def assms(4) conn_zero_def Let_def)
  moreover have "sys_inv z0" by (rule sys_inv_step [OF assms(1) move_sound [OF assms(3)] inv])
  ultimately show ?thesis using inbound_run [OF assms(1,5), of r "[]"] by simp
qed

lemma tcp_input_in_order_witness:
  "\<exists>z0 cs z'. sys_reach demo z0 \<and> moves demo cs z0 = Some z' \<and> readers z' 0 = ReaderRunning \<and>
     payloads 0 (handled demo cs z0) = [[1, 7]] \<and> waiting 0 z' = [[9]] \<and>
     concat (map (delivered 0) cs) = frames ([[1, 7]] @ [[9]]) @ [] @ c_in (conns (srv z') 0)"
proof -
  define cs where "cs = [DoNetData 0 [0, 0], DoNetData 0 [0, 2, 1, 7, 0, 0, 0, 1, 9, 0], DoRead 0,
    DoTickBegin 10, DoTickEvent, DoRead 0]"
  obtain z0 where z0: "move demo (DoAccept ''client'' 5) (sys_init demo 0) = Some z0"
    by (simp add: evaluation)
  have "\<exists>z'. moves demo cs z0 = Some z'" using z0 by (auto simp: cs_def evaluation)
  then obtain z' where run: "moves demo cs z0 = Some z'" by blast
  have z': "payloads 0 (handled demo cs z0) = [[1, 7]]" "waiting 0 z' = [[9]]"
    "readers z' 0 = ReaderRunning"
    using z0 run by (auto simp: cs_def evaluation waiting_def payloads_def from_conn_def)
  have "next_ref (srv (sys_init demo 0)) = 0" by (simp add: sys_init_def new_state_def)
  with tcp_input_in_order [OF demo_ok sys_reach.init z0 refl run] z'
  have "concat (map (delivered 0) cs) = frames ([[1, 7]] @ [[9]]) @ [] @ c_in (conns (srv z') 0)"
    by auto
  moreover have "sys_reach demo z0" by (rule sys_reach.step [OF sys_reach.init move_sound [OF z0]])
  ultimately show ?thesis using run z' by blast
qed



end
