(* ===== verification/Answer.thy ===== *)
theory Answer
  imports Streams
begin

text \<open>
  A request and its answer, from the bytes that arrive on a connection to the bytes that leave
  on it, through the reader, the event queue, the tick and the writer.
\<close>

section \<open>The writer catches up\<close>

definition write_choices :: "nat \<Rightarrow> sref \<Rightarrow> choice list" where
  "write_choices n r = concat (replicate n [DoWriteEval r, DoWriteRecv r])"

lemma writes_out:
  assumes "writers z r = WriterTop" "sendTCP (heap (srv z) r) = Some k" "tcp (heap (srv z) r) = Some c"
    and "\<not> c_closed (conns (srv z) c)" "buf (chans (srv z) k) = ps @ rest"
  shows "\<exists>z'. moves E (write_choices (length ps) r) z = Some z' \<and> buf (chans (srv z') k) = rest \<and>
    c_out (conns (srv z') c) = c_out (conns (srv z) c) @ frames ps"
  using assms
proof (induction ps arbitrary: z)
  case Nil
  then show ?case by (simp add: write_choices_def)
next
  case (Cons p ps)
  let ?s1 = "(srv z)\<lparr>chans := (chans (srv z))(k := (chans (srv z) k)\<lparr>buf := ps @ rest\<rparr>),
      conns := (conns (srv z))(c := (conns (srv z) c)\<lparr>c_out := c_out (conns (srv z) c) @ encode_frame p\<rparr>)\<rparr>"
  let ?z1 = "z\<lparr>srv := ?s1, writers := (writers z)(r := WriterTop)\<rparr>"
  have "writer_recv r (Some k) (srv z) = Some (WriterTop, ?s1)"
    using Cons.prems by (intro writer_recv_payload) simp_all
  then have "moves E (write_choices (length (p # ps)) r) z = moves E (write_choices (length ps) r) ?z1"
    using Cons.prems by (simp add: write_choices_def writer_eval_def guarded_def)
  moreover have "\<exists>z'. moves E (write_choices (length ps) r) ?z1 = Some z' \<and>
      buf (chans (srv z') k) = rest \<and> c_out (conns (srv z') c) = c_out (conns (srv ?z1) c) @ frames ps"
    using Cons.prems by (intro Cons.IH) simp_all
  ultimately show ?case by simp
qed

section \<open>The reader delivers\<close>

lemma read_choice:
  assumes "readers z r = ReaderRunning" "tcp (heap (srv z) r) = Some k" "\<not> c_closed (conns (srv z) k)"
    and "c_in (conns (srv z) k) = encode_frame p @ rest" "length p < 2 ^ 32"
    and "MaxFrameLen (cfg E) \<noteq> 0 \<Longrightarrow> length p \<le> unat (MaxFrameLen (cfg E))"
    and "length (ch (events (srv z))) < depth (events (srv z))"
  shows "move E (DoRead r) z = Some (z\<lparr>srv := (srv z)\<lparr>
    conns := (conns (srv z))(k := (conns (srv z) k)\<lparr>c_in := rest\<rparr>),
    events := (events (srv z))\<lparr>ch := ch (events (srv z)) @ [tcp_message r p]\<rparr>\<rparr>\<rparr>)"
proof -
  have "unat (word_of_nat (length p) :: u32) = length p" using assms(5) by (simp add: unat_of_nat)
  then have "frame_ready (MaxFrameLen (cfg E)) (conns (srv z) k)"
    using assms(4) by (simp add: frame_ready_def frame_decided_def encode_frame_def Let_def)
  moreover have "(readers z)(r := ReaderRunning) = readers z" using assms(1) by auto
  ultimately show ?thesis
    using reader_iter_frame [OF assms(2-7)] assms(1,2) by (simp add: guarded_def)
qed

lemma request_event:
  assumes "sessions s (ID (heap s r)) \<noteq> None" "authState (heap s r) = sessionReady"
    and "Unmarshal_ClientFrame (pb E) p = Inr \<lparr>client_Body = Some (ClientFrame_RpcRequest req)\<rparr>"
  shows "handleEvent E tc (tcp_message r p) s = dispatchRPC E tc r req s"
  using assms
  by (auto simp: handleEvent_def dispatchMessage_def resolve_session_def stale_event_def
      route_body_def GetBody_def event_defs)

section \<open>Properties\<close>

text \<open>
  C20 A request is answered on its connection: when the frame of an RPC request has arrived on
  the connection of a paired session and the event queue is empty, then one iteration of the
  reader, a tick and the writer's iterations lead to a state in which the peer has got, after
  what it had and what the handler itself sent to it, the frame of the response with the
  request's correlation id and its outcome, be it a result or an error. (The response marshals,
  the outbound channel has room for it and the handler does not make the connection close.)
\<close>

theorem rpc_answered_on_the_wire:
  assumes "env_ok E" "sys_reach E z" "ticking z = None" "ch (events (srv z)) = []"
    and "0 < depth (events (srv z))" "readers z r = ReaderRunning" "writers z r = WriterTop"
    and "authState (heap (srv z) r) = sessionReady" "sendTCP (heap (srv z) r) \<noteq> None"
    and "\<not> c_closed (conns (srv z) r)" "c_in (conns (srv z) r) = encode_frame p @ rest"
    and "length p < 2 ^ 32" "MaxFrameLen (cfg E) \<noteq> 0 \<longrightarrow> length p \<le> unat (MaxFrameLen (cfg E))"
    and "Unmarshal_ClientFrame (pb E) p = Inr \<lparr>client_Body = Some (ClientFrame_RpcRequest req)\<rparr>"
    and "s = (srv z)\<lparr>conns := (conns (srv z))(r := (conns (srv z) r)\<lparr>c_in := rest\<rparr>),
        tickCount := tickCount (srv z) + 1\<rparr>"
    and "rpc_outcome E \<lparr>tc_tick = tickCount (srv z) + 1, tc_now = t\<rparr> r req s = (res, s1)"
    and "can_queue s1 r r" "\<not> c_closed (conns s1 r)"
    and "marshalRPCResponseFrame E (rpc_response (GetCorrelationId req) res) = Inr data"
  shows "\<exists>z'. moves E ([DoRead r, DoTickBegin t, DoTickEvent] @
      write_choices (Suc (length (buf (chans s1 r)))) r) z = Some z' \<and>
    c_out (conns (srv z') r) = c_out (conns (srv z) r) @ frames (buf (chans s1 r)) @ encode_frame data"
proof -
  let ?tc = "\<lparr>tc_tick = tickCount (srv z) + 1, tc_now = t\<rparr>"
  note inv = sys_inv_reach [OF assms(1,2)]
  have tcp: "tcp (heap (srv z) r) = Some r" using sys_invD(4,5) [OF inv, of r] assms(6) by simp
  have tab: "sessions (srv z) (ID (heap (srv z) r)) \<noteq> None"
    using sys_invD(1) [OF inv] table_inv_live [of "srv z" r] assms(8,9) by (simp add: srv_inv_def)
  have same: "(events (srv z))\<lparr>ch := []\<rparr> = events (srv z)" using assms(4) by simp
  let ?z2 = "z\<lparr>srv := s, batch := [tcp_message r p], ticking := Some ?tc\<rparr>"
  let ?z3 = "?z2\<lparr>srv := s1\<lparr>chans := (chans s1)(r := (chans s1 r)\<lparr>buf := buf (chans s1 r) @ [data]\<rparr>)\<rparr>,
    batch := []\<rparr>"
  have start: "moves E [DoRead r, DoTickBegin t] z = Some ?z2"
    using read_choice [OF assms(6) tcp assms(10-12), of E] assms(3-5,13,15)
    by (simp add: tick_start_def drain_eq Let_def guarded_def same)
  have "handleEvent E ?tc (tcp_message r p) s = dispatchRPC E ?tc r req s"
    using tab assms(8,14,15) by (intro request_event) simp_all
  moreover have "dispatchRPC E ?tc r req s =
      s1\<lparr>chans := (chans s1)(r := (chans s1 r)\<lparr>buf := buf (chans s1 r) @ [data]\<rparr>)\<rparr>"
    using assms(16,17,19) by (simp add: dispatchRPC_replies rpc_reply_def pushTCP_queued)
  ultimately have "moves E (DoTickEvent # cs) ?z2 = moves E cs ?z3" for cs by simp
  then have head: "moves E ([DoRead r, DoTickBegin t] @ DoTickEvent # cs) z = moves E cs ?z3" for cs
    by (simp only: moves_append start option.case)
  have regroup: "[DoRead r, DoTickBegin t, DoTickEvent] @ cs = [DoRead r, DoTickBegin t] @ DoTickEvent # cs" for cs
    by simp
  note st = sends_rpc_outcome [OF assms(16)]
  have "sendTCP (heap s1 r) = Some r" "tcp (heap s1 r) = Some r"
    using assms(17) tcp assms(15) by (simp_all add: can_queue_def sends_core [OF st])
  moreover have "c_out (conns s1 r) = c_out (conns (srv z) r)"
    using sends_stream(2) [OF st] assms(15) by simp
  ultimately show ?thesis
    unfolding regroup head
    using writes_out [of ?z3 r r r "buf (chans s1 r) @ [data]" "[]" E] assms(7,18)
    by auto
qed

lemma rpc_answered_on_the_wire_witness:
  "\<exists>z cs z' out. sys_reach demo z \<and> moves demo cs z = Some z' \<and>
     c_in (conns (srv z) 0) = encode_frame [5, 9, 41] \<and>
     c_out (conns (srv z') 0) = out @ encode_frame [5, 9, 1, 42]"
proof -
  define before where "before = pairing_run @
    [DoWriteEval 0, DoWriteRecv 0, DoNetData 0 [0, 0, 0, 3, 5, 9, 41]]"
  have "\<exists>z. moves demo before (sys_init demo 0) = Some z"
    by (simp add: before_def pairing_run_def evaluation base64_length)
  then obtain z where run: "moves demo before (sys_init demo 0) = Some z" by blast
  have z: "ticking z = None" "ch (events (srv z)) = []" "0 < depth (events (srv z))"
    "readers z 0 = ReaderRunning" "writers z 0 = WriterTop" "authState (heap (srv z) 0) = sessionReady"
    "sendTCP (heap (srv z) 0) = Some 0" "\<not> c_closed (conns (srv z) 0)"
    "c_in (conns (srv z) 0) = [0, 0, 0, 3, 5, 9, 41]" "cap (chans (srv z) 0) = 2"
    "\<not> is_closed (chans (srv z) 0)" "buf (chans (srv z) 0) = []"
    using run by (auto simp: before_def pairing_run_def evaluation base64_length)
  let ?p = "[5, 9, 41] :: bytes" and ?req = "Some \<lparr>req_correlation_id = 9, req_payload = [41]\<rparr>"
  have enc: "c_in (conns (srv z) 0) = encode_frame ?p @ []"
    by (simp add: z encode_frame_def be_PutUint32_def)
  define s where "s = (srv z)\<lparr>conns := (conns (srv z))(0 := (conns (srv z) 0)\<lparr>c_in := []\<rparr>),
        tickCount := tickCount (srv z) + 1\<rparr>"
  define s1 where "s1 = record_call (CallRPC 0 ''demo.Num'' 9) (Suc (game s)) s"
  have o: "rpc_outcome demo \<lparr>tc_tick = tickCount (srv z) + 1, tc_now = 100\<rparr> 0 ?req s = (Inr [42], s1)"
    by (simp add: rpc_outcome_def decode_into_def extractOneofBody_def RpcRequest_GetPayload_def
        invokeRPCHandler_def demo_rpc_def run_commands_def GetCorrelationId_def s1_def)
  have q: "can_queue s1 0 0" "\<not> c_closed (conns s1 0)" "buf (chans s1 0) = []"
    using z by (simp_all add: can_queue_def s1_def s_def)
  have m: "marshalRPCResponseFrame demo (rpc_response (GetCorrelationId ?req) (Inr [42])) = Inr [5, 9, 1, 42]"
    by (simp add: marshalRPCResponseFrame_def rpc_response_def GetCorrelationId_def)
  have "sendTCP (heap (srv z) 0) \<noteq> None" using z(7) by simp
  then obtain z' where "moves demo ([DoRead 0, DoTickBegin 100, DoTickEvent] @
        write_choices (Suc (length (buf (chans s1 0)))) 0) z = Some z'"
      "c_out (conns (srv z') 0) = c_out (conns (srv z) 0) @ frames (buf (chans s1 0)) @ encode_frame [5, 9, 1, 42]"
    using rpc_answered_on_the_wire [OF demo_ok moves_reach [OF run] z(1-6) _ z(8) enc _ _ _ s_def o
        q(1,2) m] by auto
  with q(3) enc moves_reach [OF run] show ?thesis by fastforce
qed

end
