(* ===== verification/Progress.thy ===== *)
theory Progress
  imports Answer
begin

text \<open>
  Progress of the tick goroutine: every event that is in the queue or in the batch of a running
  tick is handled, in order, by the end of the next tick, whatever the other goroutines do.
\<close>

section \<open>Nothing in the queue is lost or overtaken\<close>

lemma reader_iter_appends:
  assumes k: "tcp (heap s q) = Some k" and it: "reader_iter E q s = (go, s')"
  shows "\<exists>new. ch (events s') = ch (events s) @ new" "tickCount s' = tickCount s"
proof -
  obtain res st where rf: "ReadFrame (conn_stream (conns s k)) (MaxFrameLen (cfg E)) = (res, st)"
    by fastforce
  let ?s1 = "s\<lparr>conns := (conns s)(k := (conns s k)\<lparr>c_in := avail st\<rparr>)\<rparr>"
  have "(\<exists>new. ch (events (reader_disconnect q err ?s1)) = ch (events s) @ new) \<and>
      tickCount (reader_disconnect q err ?s1) = tickCount s" for err
  proof -
    have "sends ?s1 (reader_disconnect q err ?s1)" by (rule sends_reader_disconnect)
    from sends_events [OF this] sends_static(4) [OF this] show ?thesis by auto
  qed
  then have "(\<exists>new. ch (events s') = ch (events s) @ new) \<and> tickCount s' = tickCount s"
    using it rf k by (auto simp: reader_iter_def Let_def push_def split: sum.splits prod.splits if_splits)
  then show "\<exists>new. ch (events s') = ch (events s) @ new" "tickCount s' = tickCount s" by blast+
qed

lemma queue_step:
  assumes inv: "sys_inv z" and c: "move E c z = Some z'"
  shows "\<exists>new. batch z @ ch (events (srv z)) @ new = taken c z @ batch z' @ ch (events (srv z'))"
proof (cases c)
  case (DoAccept remote t)
  with c show ?thesis by (auto simp: serveTCPConn_start_def Let_def)
next
  case (DoRead q)
  then obtain go s k where q: "tcp (heap (srv z) q) = Some k" "reader_iter E q (srv z) = (go, s)"
      "z' = z\<lparr>srv := s, readers := (readers z)(q := if go then ReaderRunning else ReaderReturned)\<rparr>"
    using c by (auto simp: Let_def split: option.splits prod.splits)
  have "\<exists>new. ch (events s) = ch (events (srv z)) @ new"
    using q(1,2) by (rule reader_iter_appends(1))
  with q(3) DoRead show ?thesis by auto
next
  case (DoWriteRecv q)
  with c obtain ko pc s where w: "writer_recv q ko (srv z) = Some (pc, s)"
      "z' = z\<lparr>srv := s, writers := (writers z)(q := pc)\<rparr>"
    by (auto split: writer_pc.splits)
  then have "events s = events (srv z)"
    by (auto simp: writer_recv_def Let_def split: option.splits list.splits prod.splits if_splits)
  with w DoWriteRecv show ?thesis by auto
next
  case (DoUDP a d)
  with c show ?thesis by (auto simp: udp_iter_def Let_def ch_push)
next
  case (DoTickBegin t)
  obtain tc evs s where st: "tick_start t (srv z) = (tc, evs, s)" by (metis prod_cases3)
  from tick_startD [OF st] c sys_invD(2) [OF inv] show ?thesis by (auto simp: DoTickBegin st)
next
  case DoTickEvent
  with c obtain tc e b where e: "batch z = e # b"
      "z' = z\<lparr>srv := handleEvent E tc e (srv z), batch := b\<rparr>"
    by (auto split: option.splits list.splits)
  from carries_handleEvent [OF event_wf_batch [OF inv e(1)], of "srv z" E tc] e show ?thesis
    by (auto simp: DoTickEvent carries_def)
next
  case DoTickEnd
  with c obtain tc where e: "batch z = []" "z' = z\<lparr>srv := tick_finish E tc (srv z), ticking := None\<rparr>"
    by (auto split: option.splits list.splits)
  from carries_sends [OF sends_tick_finish, of "srv z" E tc] e show ?thesis
    by (auto simp: DoTickEnd carries_def)
qed (use c in \<open>auto simp: on_conn_def split: writer_pc.splits option.splits list.splits\<close>)

text \<open>The batch only shrinks by what is handled, and only the start of a tick counts.\<close>

lemma batch_step:
  assumes inv: "sys_inv z" and c: "move E c z = Some z'"
  shows "length (batch z) \<le> length (taken c z) + length (batch z')"
proof (cases c)
  case (DoTickBegin t)
  with c sys_invD(2) [OF inv] show ?thesis by (auto simp: Let_def split: prod.splits)
qed (use c in \<open>auto simp: on_conn_def Let_def split: option.splits list.splits prod.splits writer_pc.splits\<close>)

lemma tickCount_step:
  assumes c: "move E c z = Some z'" and t: "\<And>t. c \<noteq> DoTickBegin t"
  shows "tickCount (srv z') = tickCount (srv z)"
proof (cases c)
  case (DoRead q)
  then obtain go s k where q: "tcp (heap (srv z) q) = Some k" "reader_iter E q (srv z) = (go, s)"
      "srv z' = s"
    using c by (auto simp: Let_def split: option.splits prod.splits)
  from reader_iter_appends(2) [OF q(1,2)] q(3) show ?thesis by simp
next
  case DoTickEnd
  with c sends_static(4) [OF sends_tick_finish] show ?thesis by (auto split: option.splits list.splits)
qed (use c t in \<open>auto simp: on_conn_def serveTCPConn_start_def udp_iter_def writer_recv_def Let_def
    split: option.splits list.splits prod.splits writer_pc.splits if_splits\<close>)

section \<open>Along an execution\<close>

lemma prefix_by_length:
  assumes "xs @ new = ys @ zs" "length xs \<le> length ys"
  shows "\<exists>later. ys = xs @ later"
  using assms by (auto simp: append_eq_append_conv2)

lemma queue_run:
  assumes "env_ok E" "moves E cs z = Some z'" "sys_inv z"
  shows "\<exists>new. batch z @ ch (events (srv z)) @ new = handled E cs z @ batch z' @ ch (events (srv z'))"
  using assms(2,3)
proof (induction cs arbitrary: z)
  case Nil
  then show ?case by auto
next
  case (Cons c cs)
  then obtain z1 where c: "move E c z = Some z1" "moves E cs z1 = Some z'"
    by (auto split: option.splits)
  obtain new where new: "batch z @ ch (events (srv z)) @ new = taken c z @ batch z1 @ ch (events (srv z1))"
    using queue_step [OF Cons.prems(2) c(1)] by blast
  have "sys_inv z1" by (rule sys_inv_step [OF assms(1) move_sound [OF c(1)] Cons.prems(2)])
  from Cons.IH [OF c(2) this] obtain new1 where
    rest: "batch z1 @ ch (events (srv z1)) @ new1 = handled E cs z1 @ batch z' @ ch (events (srv z'))"
    by blast
  from new have "batch z @ ch (events (srv z)) @ (new @ new1) =
      taken c z @ batch z1 @ ch (events (srv z1)) @ new1"
    by (metis append.assoc)
  with rest c(1) show ?case by auto
qed

lemma batch_run:
  assumes "env_ok E" "moves E cs z = Some z'" "sys_inv z"
  shows "length (batch z) \<le> length (handled E cs z) + length (batch z')"
  using assms(2,3)
proof (induction cs arbitrary: z)
  case (Cons c cs)
  then obtain z1 where c: "move E c z = Some z1" "moves E cs z1 = Some z'"
    by (auto split: option.splits)
  have "sys_inv z1" by (rule sys_inv_step [OF assms(1) move_sound [OF c(1)] Cons.prems(2)])
  from Cons.IH [OF c(2) this] batch_step [OF Cons.prems(2) c(1)] c(1) show ?case by simp
qed simp

text \<open>Once a later tick has begun, what was queued before is handled or in its batch.\<close>

lemma tick_run:
  assumes "env_ok E" "moves E cs z = Some z'" "sys_inv z" "tickCount (srv z') \<noteq> tickCount (srv z)"
  shows "length (batch z @ ch (events (srv z))) \<le> length (handled E cs z) + length (batch z')"
  using assms(2-)
proof (induction cs arbitrary: z)
  case (Cons c cs)
  then obtain z1 where c: "move E c z = Some z1" "moves E cs z1 = Some z'"
    by (auto split: option.splits)
  have inv1: "sys_inv z1" by (rule sys_inv_step [OF assms(1) move_sound [OF c(1)] Cons.prems(2)])
  obtain new where new: "batch z @ ch (events (srv z)) @ new = taken c z @ batch z1 @ ch (events (srv z1))"
    using queue_step [OF Cons.prems(2) c(1)] by blast
  show ?case
  proof (cases "\<exists>t. c = DoTickBegin t")
    case True
    then obtain t where t: "c = DoTickBegin t" by blast
    obtain tc evs s where st: "tick_start t (srv z) = (tc, evs, s)" by (metis prod_cases3)
    from c(1) have "batch z1 = ch (events (srv z))" "batch z = []"
      using tick_startD [OF st] sys_invD(2) [OF Cons.prems(2)] by (auto simp: t st)
    with batch_run [OF assms(1) c(2) inv1] c(1) show ?thesis by (simp add: t)
  next
    case False
    with tickCount_step [OF c(1)] Cons.prems(3) have "tickCount (srv z') \<noteq> tickCount (srv z1)" by simp
    from Cons.IH [OF c(2) inv1 this] arg_cong [OF new, of length] c(1) show ?thesis by simp
  qed
qed simp

text \<open>The tick goroutine never waits for another one within a tick.\<close>

lemma tick_completes:
  assumes "ticking z = Some tc"
  shows "\<exists>z'. moves E (replicate (length (batch z)) DoTickEvent @ [DoTickEnd]) z = Some z' \<and>
    ticking z' = None"
proof (use assms in \<open>induction "batch z" arbitrary: z\<close>)
  case Nil
  then show ?case by (simp flip: Nil(1))
next
  case (Cons e b)
  let ?z1 = "z\<lparr>srv := handleEvent E tc e (srv z), batch := b\<rparr>"
  have "move E DoTickEvent z = Some ?z1" using Cons.prems by (simp flip: Cons.hyps(2))
  moreover from Cons.hyps(1) [of ?z1] Cons.prems have
    "\<exists>z'. moves E (replicate (length b) DoTickEvent @ [DoTickEnd]) ?z1 = Some z' \<and> ticking z' = None"
    by simp
  ultimately show ?case by (simp flip: Cons.hyps(2))
qed

text \<open>A tick that runs can end, and then another one can run to its end.\<close>

definition tick_choice :: "choice \<Rightarrow> bool" where
  "tick_choice c \<longleftrightarrow> (\<exists>t. c = DoTickBegin t) \<or> c = DoTickEvent \<or> c = DoTickEnd"

lemma tickCount_run:
  assumes "moves E cs z = Some z'" "\<And>t. DoTickBegin t \<notin> set cs"
  shows "tickCount (srv z') = tickCount (srv z)"
  using assms
proof (induction cs arbitrary: z)
  case (Cons c cs)
  then obtain z1 where "move E c z = Some z1" "moves E cs z1 = Some z'"
    by (auto split: option.splits)
  with Cons.IH [of z1] tickCount_step [of E c z z1] Cons.prems(2) show ?case by fastforce
qed simp

lemma next_tick:
  fixes z :: "'g sys"
  shows "\<exists>cs z'. moves E cs z = Some z' \<and> list_all tick_choice cs \<and> ticking z' = None \<and>
    tickCount (srv z') \<noteq> tickCount (srv z)"
proof -
  have finish: "\<exists>cs z2. moves E cs z1 = Some z2 \<and> list_all tick_choice cs \<and> ticking z2 = None \<and>
      tickCount (srv z2) = tickCount (srv z1)" for z1 :: "'g sys"
  proof (cases "ticking z1")
    case None
    then show ?thesis by (intro exI [of _ "[]"]) simp
  next
    case (Some tc)
    let ?cs = "replicate (length (batch z1)) DoTickEvent @ [DoTickEnd]"
    obtain z2 where z2: "moves E ?cs z1 = Some z2" "ticking z2 = None"
      using tick_completes [OF Some] by blast
    moreover have "list_all tick_choice ?cs" by (simp add: tick_choice_def list_all_iff)
    moreover have "tickCount (srv z2) = tickCount (srv z1)" by (rule tickCount_run [OF z2(1)]) auto
    ultimately show ?thesis by blast
  qed
  obtain cs z1 where z1: "moves E cs z = Some z1" "list_all tick_choice cs" "ticking z1 = None"
      "tickCount (srv z1) = tickCount (srv z)" using finish by blast
  obtain tc evs s where st: "tick_start 0 (srv z1) = (tc, evs, s)" by (metis prod_cases3)
  obtain ds z2 where z2: "moves E ds (z1\<lparr>srv := s, batch := evs, ticking := Some tc\<rparr>) = Some z2"
      "list_all tick_choice ds" "ticking z2 = None" "tickCount (srv z2) = tickCount s"
    using finish [of "z1\<lparr>srv := s, batch := evs, ticking := Some tc\<rparr>"] by auto
  have "moves E (cs @ DoTickBegin 0 # ds) z = Some z2"
    using z1 z2(1) st by (simp add: moves_append guarded_def)
  moreover have "list_all tick_choice (cs @ DoTickBegin 0 # ds)"
    using z1(2) z2(2) by (simp add: tick_choice_def)
  moreover have "tickCount (srv z2) \<noteq> tickCount (srv z)"
    using tick_startD(3) [OF st] z1(4) z2(4) by simp
  ultimately show ?thesis using z2(3) by blast
qed

section \<open>Properties\<close>

text \<open>
  C8 Every event is handled, by the next tick: in every continuation of a reachable state that
  completes a later tick, the events that were in the batch of the running tick and in the queue
  have been handled, in that order and before any other, whatever the network and the other
  goroutines do in between. And such a continuation always exists, by steps of the tick
  goroutine alone: it waits for nobody.
\<close>

theorem events_handled_by_next_tick:
  assumes "env_ok E" "sys_reach E z"
  shows "(\<forall>cs z'. moves E cs z = Some z' \<and> ticking z' = None \<and> tickCount (srv z') \<noteq> tickCount (srv z) \<longrightarrow>
      (\<exists>later. handled E cs z = batch z @ ch (events (srv z)) @ later)) \<and>
    (\<exists>cs z'. moves E cs z = Some z' \<and> list_all tick_choice cs \<and> ticking z' = None \<and>
      tickCount (srv z') \<noteq> tickCount (srv z))"
proof (intro conjI allI impI)
  note inv = sys_inv_reach [OF assms]
  fix cs z'
  assume run: "moves E cs z = Some z' \<and> ticking z' = None \<and> tickCount (srv z') \<noteq> tickCount (srv z)"
  then have "batch z' = []" using sys_inv_reach [OF assms(1) run_reach [OF moves_run assms(2)]] sys_invD(2) by blast
  moreover obtain new where
    "(batch z @ ch (events (srv z))) @ new = handled E cs z @ batch z' @ ch (events (srv z'))"
    using queue_run [OF assms(1) _ inv] run by fastforce
  moreover have "length (batch z @ ch (events (srv z))) \<le> length (handled E cs z) + length (batch z')"
    using tick_run [OF assms(1) _ inv] run by blast
  ultimately show "\<exists>later. handled E cs z = batch z @ ch (events (srv z)) @ later"
    using prefix_by_length [of "batch z @ ch (events (srv z))" new "handled E cs z"] by simp
qed (rule next_tick)

lemma events_handled_by_next_tick_witness:
  "\<exists>z cs z' later. sys_reach demo z \<and> ticking z = None \<and> moves demo cs z = Some z' \<and>
     length (ch (events (srv z))) = 2 \<and> handled demo cs z = ch (events (srv z)) @ later \<and> length later = 2"
proof -
  define before where "before = [DoAccept ''client'' 5, DoNetData 0 [0, 0, 0, 2, 1, 7, 0, 0, 0, 1, 9], DoRead 0, DoRead 0]"
  define cs where "cs = [DoTickBegin 10, DoTickEvent, DoUDP ''x'' [3], DoTickEvent, DoTickEnd,
    DoTickBegin 60, DoTickEvent, DoTickEvent, DoTickEnd]"
  have "\<exists>z. moves demo before (sys_init demo 0) = Some z" by (simp add: before_def evaluation)
  then obtain z where z: "moves demo before (sys_init demo 0) = Some z" by blast
  have "\<exists>z'. moves demo cs z = Some z'" using z by (auto simp: before_def cs_def evaluation)
  then obtain z' where run: "moves demo cs z = Some z'" by blast
  have z': "ticking z' = None" "tickCount (srv z) = 0" "tickCount (srv z') = 2" "batch z = []"
    "ticking z = None" "length (ch (events (srv z))) = 2" "length (handled demo cs z) = 4"
    using z run by (auto simp: before_def cs_def evaluation)
  note reach = moves_reach [OF z]
  from events_handled_by_next_tick [OF demo_ok reach] run z' obtain later where
    "handled demo cs z = ch (events (srv z)) @ later" by force
  with z' run reach show ?thesis by fastforce
qed

end
