(* ===== verification/Join.thy ===== *)
theory Join
  imports Progress Teardown
begin

text \<open>
  A client gets in: from the login frame on a fresh connection to the paired session, through
  the reader, two ticks, the writer and the UDP reader.
\<close>

section \<open>Parts of the path\<close>

text \<open>The writer touches neither the sessions, the tables, the queue nor the tick.\<close>

definition writer_only :: "'g sys \<Rightarrow> 'g sys \<Rightarrow> bool" where
  "writer_only z z' \<longleftrightarrow> batch z' = batch z \<and> ticking z' = ticking z \<and>
     heap (srv z') = heap (srv z) \<and> sessions (srv z') = sessions (srv z) \<and>
     udpSessions (srv z') = udpSessions (srv z) \<and> events (srv z') = events (srv z) \<and>
     udpConn (srv z') = udpConn (srv z) \<and> calls (srv z') = calls (srv z)"

lemma writer_only_move:
  "move E c z = Some z' \<Longrightarrow> c = DoWriteEval r \<or> c = DoWriteRecv r \<Longrightarrow> writer_only z z'"
  by (auto simp: writer_only_def writer_recv_def Let_def
      split: writer_pc.splits option.splits list.splits prod.splits if_splits)

lemma writer_only_moves:
  assumes "moves E cs z = Some z'" "set cs \<subseteq> {DoWriteEval r, DoWriteRecv r}"
  shows "writer_only z z'"
  using assms
proof (induction cs arbitrary: z)
  case Nil
  then show ?case by (simp add: writer_only_def)
next
  case (Cons c cs)
  then obtain z1 where z1: "move E c z = Some z1" "moves E cs z1 = Some z'"
    by (auto split: option.splits)
  have "writer_only z z1" using writer_only_move [OF z1(1), of r] Cons.prems(2) by simp
  moreover have "writer_only z1 z'" using Cons.IH [OF z1(2)] Cons.prems(2) by simp
  ultimately show ?case by (simp add: writer_only_def)
qed

lemma write_choices_only: "moves E (write_choices n r) z = Some z' \<Longrightarrow> writer_only z z'"
  by (rule writer_only_moves [where r = r]) (auto simp: write_choices_def split: if_splits)

lemma login_event:
  assumes "ID (heap s r) = 0 \<or> sessions s (ID (heap s r)) \<noteq> None"
    and "authState (heap s r) = sessionPreLogin"
    and "Unmarshal_ClientFrame (pb E) p = Inr \<lparr>client_Body = Some (ClientFrame_Login lm)\<rparr>"
  shows "handleEvent E tc (tcp_message r p) s = handleLogin E tc r lm s"
  using assms
  by (auto simp: handleEvent_def dispatchMessage_def resolve_session_def stale_event_def
      route_body_def GetBody_def event_defs)

text \<open>
  The handshake datagram of a logged-in session, whoever had its sender's address before.
\<close>

lemma handshake_event:
  assumes "Unmarshal_ClientFrame (pb E) d = Inr \<lparr>client_Body = Some (ClientFrame_UdpHandshake hs)\<rparr>"
    and "sessions s (UdpHandshake_GetPlayerId hs) = Some r"
    and "sessionToken (heap s r) = UdpHandshake_GetSessionToken hs"
    and "authState (heap s r) = sessionAwaitingUDP"
  shows "let s' = handleEvent E tc (udp_message d a) s in
    sessions s' = sessions s \<and> udpSessions s' = (udpSessions s)(a \<mapsto> r) \<and>
    authState (heap s' r) = sessionReady \<and> session_udpAddr (heap s' r) = Some a \<and>
    calls s' = calls s @ (case OnConnect (cfg E) of None \<Rightarrow> [] | Some _ \<Rightarrow> [CallOnConnect r])"
proof -
  obtain f where f: "handleEvent E tc (udp_message d a) s = handleUDPHandshake E tc a hs (f s)"
      "\<And>q. core (heap (f s) q) = core (heap s q)" "sessions (f s) = sessions s"
      "udpSessions (f s) = udpSessions s" "calls (f s) = calls s"
  proof (cases "udpSessions s a")
    case None
    with assms(1) that [of id] show thesis
      by (simp add: handleEvent_def dispatchMessage_def resolve_session_def stale_event_def
          route_body_def GetBody_def event_defs)
  next
    case (Some q)
    with assms(1) that [of "upd_sess q (\<lambda>x. x\<lparr>lastSeenUnixNano := time_UnixNano (tc_now tc)\<rparr>)"] show thesis
      by (simp add: handleEvent_def dispatchMessage_def resolve_session_def stale_event_def
          route_body_def GetBody_def event_defs core_def upd_sess_def)
  qed
  have r: "sessions (f s) (UdpHandshake_GetPlayerId hs) = Some r"
    "sessionToken (heap (f s) r) = UdpHandshake_GetSessionToken hs"
    "authState (heap (f s) r) = sessionAwaitingUDP"
    using assms(2-4) f(2) [of r] f(3) by (simp_all add: core_eq_iff)
  have "sessions (handleUDPHandshake E tc a hs (f s)) = sessions (f s) \<and>
      calls (handleUDPHandshake E tc a hs (f s)) = calls (f s) @
        (case OnConnect (cfg E) of None \<Rightarrow> [] | Some _ \<Rightarrow> [CallOnConnect r])"
    using r by (simp add: handleUDPHandshake_def sendUDPHandshakeAck_def udpSendRaw_def pair_session_def
        upd_sess_def invoke_eq record_call_def Let_def split: option.split sum.split)
  with pairing_effect [OF r, of E tc a] f show ?thesis by (simp add: Let_def)
qed

text \<open>
  The second half: the datagram arrives while the tick of the login still runs; whatever that
  tick's keepalive and callback do, the next tick handles it first.
\<close>

lemma handshake_stage:
  assumes z: "ticking z = Some tc" "batch z = []" "ch (events (srv z)) = []" "0 < depth (events (srv z))"
    and udp: "udpConn (srv z)" "int (length d) \<le> MaxUDPPayload (cfg E)"
    and hs: "Unmarshal_ClientFrame (pb E) d = Inr \<lparr>client_Body = Some (ClientFrame_UdpHandshake hs)\<rparr>"
    and r: "sessions (srv z) (UdpHandshake_GetPlayerId hs) = Some r"
    "sessionToken (heap (srv z) r) = UdpHandshake_GetSessionToken hs"
    "authState (heap (srv z) r) = sessionAwaitingUDP"
  shows "\<exists>z'. moves E [DoUDP a d, DoTickEnd, DoTickBegin t, DoTickEvent] z = Some z' \<and>
    sessions (srv z') (UdpHandshake_GetPlayerId hs) = Some r \<and> udpSessions (srv z') a = Some r \<and>
    authState (heap (srv z') r) = sessionReady \<and> session_udpAddr (heap (srv z') r) = Some a \<and>
    (\<exists>between. calls (srv z') = calls (srv z) @ between @
      (case OnConnect (cfg E) of None \<Rightarrow> [] | Some _ \<Rightarrow> [CallOnConnect r]))"
proof -
  let ?s1 = "(srv z)\<lparr>events := (events (srv z))\<lparr>ch := [udp_message d a]\<rparr>\<rparr>"
  let ?s2 = "tick_finish E tc ?s1"
  have sends: "sends ?s1 ?s2" by (rule sends_tick_finish)
  obtain es where es: "ch (events ?s2) = udp_message d a # es"
    using sends_events [OF sends] by auto
  obtain cs where cs: "calls ?s2 = calls (srv z) @ cs" using sends_calls [OF sends] by auto
  have iter: "udp_iter E a d (srv z) = ?s1"
    using z(3,4) udp(2) by (simp add: udp_iter_def push_def Let_def)
  obtain tc2 evs s3 where st: "tick_start t ?s2 = (tc2, evs, s3)" by (metis prod_cases3)
  note s3 = tick_startD [OF st, unfolded es]
  let ?s4 = "handleEvent E tc2 (udp_message d a) s3"
  have "moves E [DoUDP a d, DoTickEnd, DoTickBegin t, DoTickEvent] z =
      Some (z\<lparr>srv := ?s4, ticking := Some tc2, batch := es\<rparr>)"
    using z(1,2) udp(1) iter st s3(1) by (simp add: guarded_def)
  moreover have s: "sessions s3 (UdpHandshake_GetPlayerId hs) = Some r"
    "sessionToken (heap s3 r) = UdpHandshake_GetSessionToken hs"
    "authState (heap s3 r) = sessionAwaitingUDP"
    using r sends_static(1) [OF sends] sends_core [OF sends, of r] by (simp_all add: s3(3))
  moreover have "calls s3 = calls (srv z) @ cs" by (simp add: s3(3) cs)
  ultimately show ?thesis using handshake_event [OF hs s, of tc2 a] by (simp add: Let_def)
qed

section \<open>Properties\<close>

text \<open>
  C7 A client gets in: when a login frame has arrived on the connection of a session that has
  not logged in, the event queue is empty and \<open>Authenticate\<close> accepts, one iteration of the
  reader, a tick and the writer bring the response frame with the id and a token to the client;
  and when the client returns that token in a datagram, the next tick pairs the session with
  the datagram's address, and \<open>OnConnect\<close> is called (when configured), whatever the tick
  callback, the handlers and the keepalive did in between. (The response marshals and the
  outbound channel has room for it.)
\<close>

theorem client_gets_in:
  assumes "env_ok E" "sys_reach E z" "ticking z = None" "ch (events (srv z)) = []"
    and "0 < depth (events (srv z))" "readers z r = ReaderRunning" "writers z r = WriterTop"
    and "authState (heap (srv z) r) = sessionPreLogin" "can_queue (srv z) r r"
    and "\<not> c_closed (conns (srv z) r)" "c_in (conns (srv z) r) = encode_frame p @ rest"
    and "length p < 2 ^ 32" "MaxFrameLen (cfg E) \<noteq> 0 \<longrightarrow> length p \<le> unat (MaxFrameLen (cfg E))"
    and "Unmarshal_ClientFrame (pb E) p = Inr \<lparr>client_Body = Some (ClientFrame_Login lm)\<rparr>"
    and "s = (srv z)\<lparr>conns := (conns (srv z))(r := (conns (srv z) r)\<lparr>c_in := rest\<rparr>),
        tickCount := tickCount (srv z) + 1\<rparr>"
    and "login_verdict E lm s = (Inr (creds, q), s1)" "token = fst (generateSessionToken E s1)"
    and "Marshal_ServerFrame (pb E) (login_reply True '''' q token (login_endpoint (cfg E))) = Inr data"
    and "udpConn (srv z)" "int (length d) \<le> MaxUDPPayload (cfg E)"
    and "Unmarshal_ClientFrame (pb E) d = Inr \<lparr>client_Body = Some (ClientFrame_UdpHandshake hs)\<rparr>"
    and "UdpHandshake_GetPlayerId hs = q" "UdpHandshake_GetSessionToken hs = token"
  shows "\<exists>z1 z2. moves E ([DoRead r, DoTickBegin t, DoTickEvent] @
      write_choices (Suc (length (buf (chans (srv z) r)))) r) z = Some z1 \<and>
    c_out (conns (srv z1) r) = c_out (conns (srv z) r) @ frames (buf (chans (srv z) r)) @ encode_frame data \<and>
    moves E [DoUDP a d, DoTickEnd, DoTickBegin t', DoTickEvent] z1 = Some z2 \<and>
    sessions (srv z2) q = Some r \<and> udpSessions (srv z2) a = Some r \<and>
    authState (heap (srv z2) r) = sessionReady \<and> session_udpAddr (heap (srv z2) r) = Some a \<and>
    (OnConnect (cfg E) \<noteq> None \<longrightarrow> CallOnConnect r \<in> set (calls (srv z2)))"
proof -
  let ?tc = "\<lparr>tc_tick = tickCount (srv z) + 1, tc_now = t\<rparr>"
  let ?ps = "buf (chans (srv z) r) @ [data]"
  note inv = sys_inv_reach [OF assms(1,2)]
  have tcp: "tcp (heap (srv z) r) = Some r" using sys_invD(4,5) [OF inv, of r] assms(6) by simp
  have id: "ID (heap (srv z) r) = 0"
    using sys_invD(1) [OF inv] table_inv_prelogin assms(8) by (auto simp: srv_inv_def)
  have same: "(events (srv z))\<lparr>ch := []\<rparr> = events (srv z)" using assms(4) by simp
  have room: "can_queue s r r" using assms(9,15) by (simp add: can_queue_def)
  let ?z2 = "z\<lparr>srv := s, batch := [tcp_message r p], ticking := Some ?tc\<rparr>"
  have start: "moves E [DoRead r, DoTickBegin t] z = Some ?z2"
    using read_choice [OF assms(6) tcp assms(10-12), of E] assms(3-5,13,15)
    by (simp add: tick_start_def drain_eq Let_def guarded_def same)
  have login: "handleEvent E ?tc (tcp_message r p) s = handleLogin E ?tc r lm s"
    using id assms(8,14,15) by (intro login_event) simp_all
  obtain s4 where s4: "handleLogin E ?tc r lm s =
      s4\<lparr>chans := (chans s)(r := (chans s r)\<lparr>buf := buf (chans s r) @ [data]\<rparr>)\<rparr>"
    "sessions s4 = (sessions s)(q \<mapsto> r)" "events s4 = events s" "conns s4 = conns s"
    "heap s4 = (heap s)(r := (heap s r)\<lparr>ID := q, sessionToken := token, authState := sessionAwaitingUDP\<rparr>)"
    "udpConn s4 = udpConn s"
    by (rule accepted_effect [OF assms(16) room assms(17,18)])
  let ?z3 = "?z2\<lparr>srv := s4\<lparr>chans := (chans s)(r := (chans s r)\<lparr>buf := ?ps\<rparr>)\<rparr>, batch := []\<rparr>"
  have z3: "moves E ([DoRead r, DoTickBegin t, DoTickEvent] @ cs) z = moves E cs ?z3" for cs
  proof -
    have "moves E (DoTickEvent # cs) ?z2 = moves E cs ?z3"
      using login s4(1) assms(15) by simp
    moreover have "[DoRead r, DoTickBegin t, DoTickEvent] @ cs = [DoRead r, DoTickBegin t] @ DoTickEvent # cs"
      by simp
    ultimately show ?thesis by (simp only: moves_append start option.case)
  qed
  obtain z1 where z1: "moves E (write_choices (length ?ps) r) ?z3 = Some z1"
      "c_out (conns (srv z1) r) = c_out (conns (srv ?z3) r) @ frames ?ps"
    using writes_out [of ?z3 r r r ?ps "[]" E] assms(7,9,10,15) tcp s4(4,5)
    by (auto simp: can_queue_def)
  note only = write_choices_only [OF z1(1), unfolded writer_only_def]
  have "\<exists>z2. moves E [DoUDP a d, DoTickEnd, DoTickBegin t', DoTickEvent] z1 = Some z2 \<and>
    sessions (srv z2) (UdpHandshake_GetPlayerId hs) = Some r \<and> udpSessions (srv z2) a = Some r \<and>
    authState (heap (srv z2) r) = sessionReady \<and> session_udpAddr (heap (srv z2) r) = Some a \<and>
    (\<exists>between. calls (srv z2) = calls (srv z1) @ between @
      (case OnConnect (cfg E) of None \<Rightarrow> [] | Some _ \<Rightarrow> [CallOnConnect r]))"
    by (rule handshake_stage [where tc = ?tc])
      (use only s4 assms(4,5,15,19-23) in simp_all)
  then obtain z2 where z2: "moves E [DoUDP a d, DoTickEnd, DoTickBegin t', DoTickEvent] z1 = Some z2"
    "sessions (srv z2) q = Some r" "udpSessions (srv z2) a = Some r"
    "authState (heap (srv z2) r) = sessionReady" "session_udpAddr (heap (srv z2) r) = Some a"
    "OnConnect (cfg E) \<noteq> None \<longrightarrow> CallOnConnect r \<in> set (calls (srv z2))"
    using assms(22) by fastforce
  have "c_out (conns (srv z1) r) = c_out (conns (srv z) r) @ frames (buf (chans (srv z) r)) @ encode_frame data"
    using z1(2) s4(4) assms(15) by simp
  with z1(1) z2 show ?thesis unfolding z3 by auto
qed

lemma client_gets_in_witness:
  "\<exists>z cs z'. sys_reach demo z \<and> authState (heap (srv z) 0) = sessionPreLogin \<and>
     moves demo cs z = Some z' \<and> sessions (srv z') 7 = Some 0 \<and> udpSessions (srv z') ''here'' = Some 0 \<and>
     authState (heap (srv z') 0) = sessionReady \<and> CallOnConnect 0 \<in> set (calls (srv z'))"
proof -
  define before where "before = [DoAccept ''client'' 5, DoNetData 0 [0, 0, 0, 2, 1, 7]]"
  have "\<exists>z. moves demo before (sys_init demo 0) = Some z" by (simp add: before_def evaluation)
  then obtain z where run: "moves demo before (sys_init demo 0) = Some z" by blast
  have z: "ticking z = None" "ch (events (srv z)) = []" "0 < depth (events (srv z))"
    "readers z 0 = ReaderRunning" "writers z 0 = WriterTop" "authState (heap (srv z) 0) = sessionPreLogin"
    "can_queue (srv z) 0 0" "\<not> c_closed (conns (srv z) 0)" "c_in (conns (srv z) 0) = encode_frame [1, 7] @ []"
    "sessions (srv z) = Map.empty" "udpConn (srv z)"
    using run by (auto simp: before_def evaluation can_queue_def encode_frame_def be_PutUint32_def)
  let ?lm = "Some \<lparr>login_credentials = [7]\<rparr>"
  define s where "s = (srv z)\<lparr>conns := (conns (srv z))(0 := (conns (srv z) 0)\<lparr>c_in := []\<rparr>),
        tickCount := tickCount (srv z) + 1\<rparr>"
  define token where "token = fst (generateSessionToken demo s)"
  have token: "token = base64_RawURL (replicate 16 77)" by (simp add: token_def generateSessionToken_def)
  have v: "login_verdict demo ?lm s = (Inr (Envelope (Num 7), 7), s)"
    using z(10) by (simp add: login_verdict_def callAuthenticate_def demo_auth_def GetCredentials_def s_def)
  let ?d = "2 # 7 # map (\<lambda>c. word_of_nat (of_char c) :: byte) token"
  let ?hs = "Some \<lparr>hs_player_id = 7, hs_session_token = token\<rparr>"
  have d: "Unmarshal_ClientFrame (pb demo) ?d = Inr \<lparr>client_Body = Some (ClientFrame_UdpHandshake ?hs)\<rparr>"
    "int (length ?d) \<le> MaxUDPPayload (cfg demo)"
    by (simp_all add: token base64_length demo_cfg_def)
  have l: "Unmarshal_ClientFrame (pb demo) [1, 7] = Inr \<lparr>client_Body = Some (ClientFrame_Login ?lm)\<rparr>" by simp
  have "\<exists>data. Marshal_ServerFrame (pb demo) (login_reply True '''' 7 token (login_endpoint (cfg demo))) = Inr data"
    by (simp add: login_reply_def)
  then obtain data where m: "Marshal_ServerFrame (pb demo) (login_reply True '''' 7 token (login_endpoint (cfg demo))) = Inr data"
    by blast
  obtain z1 z2 where moves: "moves demo ([DoRead 0, DoTickBegin 10, DoTickEvent] @
      write_choices (Suc (length (buf (chans (srv z) 0)))) 0) z = Some z1"
    "moves demo [DoUDP ''here'' ?d, DoTickEnd, DoTickBegin 60, DoTickEvent] z1 = Some z2"
    "sessions (srv z2) 7 = Some 0" "udpSessions (srv z2) ''here'' = Some 0"
    "authState (heap (srv z2) 0) = sessionReady"
    "OnConnect (cfg demo) \<noteq> None \<longrightarrow> CallOnConnect 0 \<in> set (calls (srv z2))"
    using client_gets_in [where a = "''here''" and t = 10 and t' = 60,
        OF demo_ok moves_reach [OF run] z(1-9) _ _ l s_def v token_def m z(11) d(2,1)]
    by (auto simp: UdpHandshake_GetPlayerId_def UdpHandshake_GetSessionToken_def)
  then have "moves demo (([DoRead 0, DoTickBegin 10, DoTickEvent] @
      write_choices (Suc (length (buf (chans (srv z) 0)))) 0) @
      [DoUDP ''here'' ?d, DoTickEnd, DoTickBegin 60, DoTickEvent]) z = Some z2"
    by (simp only: moves_append option.case)
  moreover have "CallOnConnect 0 \<in> set (calls (srv z2))" using moves(6) by simp
  ultimately show ?thesis using moves(3-5) moves_reach [OF run] z(6) by blast
qed

end
