(* ===== verification/Delivery.thy ===== *)
theory Delivery
  imports Invariant
begin

text \<open>
  What reaches whom: fan-out over UDP and TCP, for the broadcasts of \<open>tickctx.go\<close> and the
  publications of \<open>sub/sub.go\<close>.
\<close>

section \<open>Datagrams\<close>

text \<open>The datagrams of one message to a list of players, in order: one per paired player.\<close>

definition datagrams :: "'g server \<Rightarrow> bytes \<Rightarrow> pid list \<Rightarrow> (addr \<times> bytes) list" where
  "datagrams s data ps =
     map (\<lambda>p. (the (paired s p), data)) (filter (\<lambda>p. paired s p \<noteq> None) ps)"

definition sendable :: "('m, 'g) env \<Rightarrow> bytes \<Rightarrow> 'g server \<Rightarrow> bool" where
  "sendable E data s \<longleftrightarrow> udpConn s \<and> int (length data) \<le> MaxUDPPayload (cfg E)"

lemma paired_frame [simp]: "paired (s\<lparr>udp_sent := x\<rparr>) = paired s" "paired (draw s) = paired s"
  by (simp_all add: fun_eq_iff paired_def split: option.split)

lemma datagrams_sent [simp]: "datagrams (s\<lparr>udp_sent := x\<rparr>) = datagrams s"
  by (simp add: fun_eq_iff datagrams_def)

lemma sendable_sent [simp]: "sendable E data (s\<lparr>udp_sent := x\<rparr>) = sendable E data s"
  by (simp add: sendable_def)

lemma datagrams_Cons: "datagrams s data (p # ps) = datagrams s data [p] @ datagrams s data ps"
  by (simp add: datagrams_def)

text \<open>A loop whose body sends to one player sends to all of them.\<close>

lemma datagram_loop:
  assumes "\<And>p s. sendable E data s \<Longrightarrow> f p s = s\<lparr>udp_sent := udp_sent s @ datagrams s data [p]\<rparr>"
    and "sendable E data s"
  shows "fold f ps s = s\<lparr>udp_sent := udp_sent s @ datagrams s data ps\<rparr>"
  using assms(2)
proof (induction ps arbitrary: s)
  case Nil
  then show ?case by (simp add: datagrams_def)
next
  case (Cons p ps)
  then show ?case by (simp add: assms(1) datagrams_Cons [of s data p ps])
qed

lemma SendUDP_datagram:
  "marshalGameServerFrame E msg = Inr data \<Longrightarrow> sendable E data s \<Longrightarrow>
   SendUDP E p msg s = s\<lparr>udp_sent := udp_sent s @ datagrams s data [p]\<rparr>"
  by (auto simp: SendUDP_def udpSendRaw_def datagrams_def paired_def sendable_def
      split: option.splits)

lemma BroadcastUDP_datagrams:
  assumes "marshalGameServerFrame E msg = Inr data" "sendable E data s"
  shows "udp_sent (BroadcastUDP E msg s) = udp_sent s @ datagrams s data (range_now E s)"
proof -
  let ?f = "\<lambda>p s. case sessions s p of None \<Rightarrow> s
     | Some r \<Rightarrow> if authState (heap s r) = sessionReady \<and> session_udpAddr (heap s r) \<noteq> None
                then udpSendRaw E (session_udpAddr (heap s r)) data s else s"
  have "?f p s = s\<lparr>udp_sent := udp_sent s @ datagrams s data [p]\<rparr>" if "sendable E data s" for p s
    using that
    by (auto simp: udpSendRaw_def datagrams_def paired_def sendable_def split: option.splits)
  moreover have "datagrams (draw s) = datagrams s"
    by (simp add: fun_eq_iff datagrams_def)
  moreover have "sendable E data (draw s)" using assms(2) by (simp add: sendable_def)
  ultimately show ?thesis
    using assms(1) datagram_loop [of E data ?f "draw s"] by (simp add: BroadcastUDP_def)
qed

section \<open>Frames over TCP\<close>

definition tcp_room :: "'g server \<Rightarrow> sref \<Rightarrow> bool" where
  "tcp_room s r \<longleftrightarrow>
     sendTCP (heap s r) = Some r \<and> length (buf (chans s r)) < cap (chans s r)"

lemma pushTCP_effect:
  assumes inv: "chan_inv b s"
  shows "buf (chans (pushTCP (Some r) data s) q) =
      buf (chans s q) @ (if q = r \<and> tcp_room s r then [data] else [])"
    and "sendTCP (heap s r) \<noteq> None \<Longrightarrow> \<not> tcp_room s r \<Longrightarrow>
      fired (disconnectOnce (heap (pushTCP (Some r) data s) r))"
proof -
  have chans: "chans (scheduleDisconnect se err s) = chans s" for se err
    by (cases se) (auto simp: scheduleDisconnect_def Let_def split: prod.splits)
  have own: "k = r" "\<not> is_closed (chans s r)" if "sendTCP (heap s r) = Some k" for k
    using chan_inv_chan [OF inv that] by auto
  show "buf (chans (pushTCP (Some r) data s) q) =
      buf (chans s q) @ (if q = r \<and> tcp_room s r then [data] else [])"
    using own by (cases rule: pushTCP_cases [of s r data]) (auto simp: tcp_room_def chans)
  assume "sendTCP (heap s r) \<noteq> None" "\<not> tcp_room s r"
  then have "pushTCP (Some r) data s = scheduleDisconnect (Some r) (Sentinel ErrOutboundQueueFull) s"
    using own by (cases rule: pushTCP_cases [of s r data]) (auto simp: tcp_room_def)
  then show "fired (disconnectOnce (heap (pushTCP (Some r) data s) r))"
    by (cases rule: scheduleDisconnect_cases [of s r "Sentinel ErrOutboundQueueFull"]) simp_all
qed

text \<open>
  One frame to each of a list of players: a session that is among them gets it once at the
  end of its queue, or has its disconnect signalled; no other queue changes.
\<close>

definition addressed :: "'g server \<Rightarrow> pid list \<Rightarrow> sref \<Rightarrow> bool" where
  "addressed s ps r \<longleftrightarrow> (\<exists>p \<in> set ps. sessions s p = Some r)"

lemma push_loop:
  assumes "chan_inv b s" "distinct ps" "inj_on (sessions s) (set ps \<inter> dom (sessions s))"
  shows "buf (chans (fold (\<lambda>p s. pushTCP (sessions s p) data s) ps s) r) =
      buf (chans s r) @ (if addressed s ps r \<and> tcp_room s r then [data] else []) \<and>
    (addressed s ps r \<and> sendTCP (heap s r) \<noteq> None \<and> \<not> tcp_room s r \<longrightarrow>
      fired (disconnectOnce (heap (fold (\<lambda>p s. pushTCP (sessions s p) data s) ps s) r)))"
  using assms
proof (induction ps arbitrary: s)
  case Nil
  show ?case by (simp add: addressed_def)
next
  case (Cons p ps)
  let ?s1 = "pushTCP (sessions s p) data s"
  have sends: "sends s ?s1" by (rule sends_pushTCP)
  note st = sends_static [OF sends] sends_core [OF sends]
  have sends_rest: "sends ?s1 (fold (\<lambda>p s. pushTCP (sessions s p) data s) ps ?s1)"
    by (rule sends_fold) (rule sends_pushTCP)
  have addr: "addressed ?s1 ps r = addressed s ps r" by (simp add: addressed_def st)
  have "inj_on (sessions ?s1) (set ps \<inter> dom (sessions ?s1))"
    using Cons.prems(3) by (auto simp: st inj_on_def)
  with Cons.prems(2) have IH: "buf (chans (fold (\<lambda>p s. pushTCP (sessions s p) data s) ps ?s1) r) =
      buf (chans ?s1 r) @ (if addressed s ps r \<and> tcp_room ?s1 r then [data] else []) \<and>
    (addressed s ps r \<and> sendTCP (heap s r) \<noteq> None \<and> \<not> tcp_room ?s1 r \<longrightarrow>
      fired (disconnectOnce (heap (fold (\<lambda>p s. pushTCP (sessions s p) data s) ps ?s1) r)))"
    using Cons.IH [OF chan_inv_sends [OF Cons.prems(1) sends]] by (simp add: addr st)
  show ?case
  proof (cases "sessions s p = Some r")
    case True
    have "\<not> addressed s ps r"
    proof
      assume "addressed s ps r"
      then obtain q where q: "q \<in> set ps" "sessions s q = Some r" by (auto simp: addressed_def)
      with True have "p = q" by (intro inj_onD [OF Cons.prems(3)]) auto
      with q Cons.prems(2) show False by simp
    qed
    moreover have "addressed s (p # ps) r" using True by (simp add: addressed_def)
    ultimately show ?thesis
      using True IH pushTCP_effect [OF Cons.prems(1), of r data] sends_fired [OF sends_rest] by simp
  next
    case False
    have "buf (chans ?s1 r) = buf (chans s r)"
      using False by (cases "sessions s p") (simp_all add: pushTCP_effect(1) [OF Cons.prems(1)])
    moreover from this have "tcp_room ?s1 r = tcp_room s r" by (simp add: tcp_room_def st)
    moreover have "addressed s (p # ps) r = addressed s ps r" using False by (simp add: addressed_def)
    ultimately show ?thesis using IH by simp
  qed
qed

lemma sessions_inj: "table_inv s \<Longrightarrow> inj_on (sessions s) (A \<inter> dom (sessions s))"
  unfolding inj_on_def by (metis IntD2 domIff not_Some_eq table_inv_entry)

section \<open>Properties\<close>

text \<open>
  C23 \<open>BroadcastUDP\<close> reaches exactly the paired sessions: one datagram with the frame to
  each session that is in the table, ready and has an address, at that address, and nothing
  else. (The frame marshals and fits the datagram cap, and the UDP socket is open.)
\<close>

theorem BroadcastUDP_exactly_paired:
  assumes "env_ok E" "finite (dom (sessions s))" "sendable E data s"
    and "marshalGameServerFrame E msg = Inr data"
  shows "\<exists>ps. distinct ps \<and> set ps = {p. paired s p \<noteq> None} \<and>
    udp_sent (BroadcastUDP E msg s) = udp_sent s @ map (\<lambda>p. (the (paired s p), data)) ps"
proof -
  let ?ps = "filter (\<lambda>p. paired s p \<noteq> None) (range_now E s)"
  have "range_order (sessions s) (range_now E s)"
    by (rule range_now_order [OF assms(1,2)])
  then have "distinct ?ps" "set ?ps = {p. paired s p \<noteq> None}"
    by (auto simp: range_order_def paired_def split: option.splits)
  moreover have "udp_sent (BroadcastUDP E msg s) = udp_sent s @ map (\<lambda>p. (the (paired s p), data)) ?ps"
    using BroadcastUDP_datagrams [OF assms(4,3)] by (simp add: datagrams_def)
  ultimately show ?thesis by blast
qed

lemma BroadcastUDP_exactly_paired_witness:
  "udp_sent (BroadcastUDP demo (Num 8) (demo_state sessionReady 5 (Some ''a''))) = [(''a'', [4, 8])]"
proof -
  let ?s = "demo_state sessionReady 5 (Some ''a'')"
  have set: "{p. paired ?s p \<noteq> None} = {5}" by (auto simp: paired_def split: option.splits if_splits)
  have m: "marshalGameServerFrame demo (Num 8) = Inr [4, 8]" by (simp add: marshalGameServerFrame_def)
  have "sendable demo [4, 8] ?s" by (simp add: sendable_def)
  from BroadcastUDP_exactly_paired [OF demo_ok _ this m] obtain ps where
    "distinct ps" "set ps = {5}"
    "udp_sent (BroadcastUDP demo (Num 8) ?s) = map (\<lambda>p. (the (paired ?s p), [4, 8])) ps"
    using set by auto
  moreover from this have "ps = [5]"
    by (cases ps) (auto simp: subset_singleton_iff dest!: subset_singletonD)
  ultimately show ?thesis by (simp add: paired_def)
qed

text \<open>
  C24 \<open>BroadcastTCP\<close> in a consistent state: every session of the table whose outbound queue
  has room gets the frame once, at its end; a session whose queue is full gets nothing and has
  its disconnect signalled; no other session's queue changes.
\<close>

theorem BroadcastTCP_each_once:
  assumes "env_ok E" "srv_inv b s" "marshalGameServerFrame E msg = Inr data"
  shows "buf (chans (BroadcastTCP E msg s) r) =
      buf (chans s r) @ (if r \<in> ran (sessions s) \<and> tcp_room s r then [data] else []) \<and>
    (if r \<in> ran (sessions s) \<and> sendTCP (heap s r) \<noteq> None \<and> \<not> tcp_room s r
     then fired (disconnectOnce (heap (BroadcastTCP E msg s) r)) else True)"
proof -
  have inv: "chan_inv b (draw s)" "table_inv s"
    using assms(2) chan_inv_sends [OF _ sends_draw] by (auto simp: srv_inv_def)
  have "range_order (sessions s) (range_now E s)"
    using range_now_order [OF assms(1)] table_inv_finite [OF inv(2)] by blast
  then have order: "distinct (range_now E s)" "set (range_now E s) = dom (sessions s)"
    by (simp_all add: range_order_def)
  have "addressed (draw s) (range_now E s) r \<longleftrightarrow> r \<in> ran (sessions s)"
    by (auto simp: addressed_def order ran_def)
  moreover have "tcp_room (draw s) r = tcp_room s r" by (simp add: tcp_room_def)
  ultimately show ?thesis
    using push_loop [OF inv(1) order(1), of data r] sessions_inj [OF inv(2)] assms(3)
    by (simp add: BroadcastTCP_def)
qed

lemma demo_state_inv:
  "srv_inv [] (demo_state sessionReady 5 (Some ''a''))"
  by (auto simp: srv_inv_def chan_inv_def table_inv_def call_inv_def split: if_splits)

lemma BroadcastTCP_each_once_witness:
  "buf (chans (BroadcastTCP demo (Num 8) (demo_state sessionReady 5 (Some ''a''))) 0) = [[4, 8]]"
proof -
  have m: "marshalGameServerFrame demo (Num 8) = Inr [4, 8]" by (simp add: marshalGameServerFrame_def)
  from BroadcastTCP_each_once [OF demo_ok demo_state_inv m, of 0] show ?thesis
    by (simp add: tcp_room_def)
qed

end

