(* ===== verification/Sub.thy ===== *)
theory Sub
  imports Delivery
begin

text \<open>
  \<open>sub/sub.go\<close>: topic subscriptions. The two maps of the manager are kept as maps of
  sets (\<open>map[K]struct{}\<close>); the order in which Go ranges over a set is a parameter. The
  specification is the relation of who is subscribed to what.
\<close>

section \<open>The manager\<close>

type_synonym Topic = string

datatype Transport = TransportUDP | TransportTCP

record Manager =
  subscribers :: "Topic \<rightharpoonup> pid set"
  perPlayer :: "pid \<rightharpoonup> Topic set"

definition New :: Manager where
  "New = \<lparr>subscribers = Map.empty, perPlayer = Map.empty\<rparr>"

definition Subscribe :: "pid \<Rightarrow> Topic \<Rightarrow> Manager \<Rightarrow> Manager" where
  "Subscribe playerID topic m =
     (let subs = (case subscribers m topic of Some S \<Rightarrow> S | None \<Rightarrow> {});
          m1 = m\<lparr>subscribers := (subscribers m)(topic \<mapsto> insert playerID subs)\<rparr>;
          topics = (case perPlayer m1 playerID of Some T \<Rightarrow> T | None \<Rightarrow> {})
      in m1\<lparr>perPlayer := (perPlayer m1)(playerID \<mapsto> insert topic topics)\<rparr>)"

text \<open>\<open>delete(set, k)\<close> and removal of the entry once the set is empty.\<close>

definition drop_member :: "'k \<Rightarrow> 'a \<Rightarrow> ('k \<rightharpoonup> 'a set) \<Rightarrow> ('k \<rightharpoonup> 'a set)" where
  "drop_member k x f =
     (case f k of
        None \<Rightarrow> f
      | Some S \<Rightarrow> if S - {x} = {} then f(k := None) else f(k \<mapsto> S - {x}))"

definition Unsubscribe :: "pid \<Rightarrow> Topic \<Rightarrow> Manager \<Rightarrow> Manager" where
  "Unsubscribe playerID topic m =
     (let m1 = m\<lparr>subscribers := drop_member topic playerID (subscribers m)\<rparr>
      in m1\<lparr>perPlayer := drop_member playerID topic (perPlayer m1)\<rparr>)"

definition UnsubscribeAll :: "(Topic set \<Rightarrow> Topic list) \<Rightarrow> pid \<Rightarrow> Manager \<Rightarrow> Manager" where
  "UnsubscribeAll rng playerID m =
     (case perPlayer m playerID of
        None \<Rightarrow> m
      | Some topics \<Rightarrow>
          (let m1 = m\<lparr>subscribers :=
                 fold (\<lambda>t f. drop_member t playerID f) (rng topics) (subscribers m)\<rparr>
           in m1\<lparr>perPlayer := (perPlayer m1)(playerID := None)\<rparr>))"

definition PublishOver ::
  "('m, 'g) env \<Rightarrow> (pid set \<Rightarrow> pid list) \<Rightarrow> Manager \<Rightarrow> Topic \<Rightarrow> 'm \<Rightarrow> Transport \<Rightarrow> 'g server \<Rightarrow> 'g server" where
  "PublishOver E rng m topic msg transport s =
     (case subscribers m topic of
        None \<Rightarrow> s
      | Some subs \<Rightarrow>
          if subs = {} then s
          else (case transport of
              TransportTCP \<Rightarrow> fold (\<lambda>p. SendTCP E p msg) (rng subs) s
            | TransportUDP \<Rightarrow> fold (\<lambda>p. SendUDP E p msg) (rng subs) s))"

definition Publish ::
  "('m, 'g) env \<Rightarrow> (pid set \<Rightarrow> pid list) \<Rightarrow> Manager \<Rightarrow> Topic \<Rightarrow> 'm \<Rightarrow> 'g server \<Rightarrow> 'g server" where
  "Publish E rng m topic msg s = PublishOver E rng m topic msg TransportUDP s"

text \<open>A nil slice and an empty one are the same list.\<close>

definition Subscribers :: "(pid set \<Rightarrow> pid list) \<Rightarrow> Manager \<Rightarrow> Topic \<Rightarrow> pid list" where
  "Subscribers rng m topic = (case subscribers m topic of None \<Rightarrow> [] | Some subs \<Rightarrow> rng subs)"

definition Topics :: "(Topic set \<Rightarrow> Topic list) \<Rightarrow> Manager \<Rightarrow> pid \<Rightarrow> Topic list" where
  "Topics rng m playerID = (case perPlayer m playerID of None \<Rightarrow> [] | Some ts \<Rightarrow> rng ts)"

text \<open>What \<open>range\<close> over a set promises.\<close>

definition lists_sets :: "('a set \<Rightarrow> 'a list) \<Rightarrow> bool" where
  "lists_sets rng \<longleftrightarrow> (\<forall>S. finite S \<longrightarrow> distinct (rng S) \<and> set (rng S) = S)"

section \<open>Specification\<close>

definition members :: "('k \<rightharpoonup> 'a set) \<Rightarrow> 'k \<Rightarrow> 'a set" where
  "members f k = (case f k of None \<Rightarrow> {} | Some S \<Rightarrow> S)"

definition tight :: "('k \<rightharpoonup> 'a set) \<Rightarrow> bool" where
  "tight f \<longleftrightarrow> (\<forall>k S. f k = Some S \<longrightarrow> S \<noteq> {} \<and> finite S)"

text \<open>The two maps are converse relations, and no empty set is kept.\<close>

definition manager_inv :: "Manager \<Rightarrow> bool" where
  "manager_inv m \<longleftrightarrow> tight (subscribers m) \<and> tight (perPlayer m) \<and>
     (\<forall>p t. p \<in> members (subscribers m) t \<longleftrightarrow> t \<in> members (perPlayer m) p)"

definition subscriptions :: "Manager \<Rightarrow> (pid \<times> Topic) set" where
  "subscriptions m = {(p, t). p \<in> members (subscribers m) t}"

lemma members_simps [simp]:
  "members (f(k := None)) j = (if j = k then {} else members f j)"
  "members (f(k \<mapsto> S)) j = (if j = k then S else members f j)"
  "members Map.empty j = {}"
  by (simp_all add: members_def)

lemma members_drop [simp]:
  "members (drop_member k x f) j = (if j = k then members f k - {x} else members f j)"
  by (auto simp: drop_member_def members_def split: option.splits)

lemma tight_drop: "tight f \<Longrightarrow> tight (drop_member k x f)"
  by (auto simp: drop_member_def tight_def split: option.splits if_splits)

lemma tight_insert: "tight f \<Longrightarrow> tight (f(k \<mapsto> insert x (members f k)))"
  by (auto simp: tight_def members_def split: option.splits)

lemma tight_remove: "tight f \<Longrightarrow> tight (f(k := None))"
  by (simp add: tight_def)

lemma tight_finite: "tight f \<Longrightarrow> finite (members f k)"
  by (auto simp: tight_def members_def split: option.splits)

lemma tight_empty: "tight f \<Longrightarrow> (\<And>k. members f k = {}) \<Longrightarrow> f = Map.empty"
  by (rule ext) (metis members_def option.case(2) option.exhaust tight_def)

lemma members_fold_drop:
  "members (fold (\<lambda>t f. drop_member t x f) ts f) j =
    (if j \<in> set ts then members f j - {x} else members f j)"
  by (induction ts arbitrary: f) auto

lemma tight_fold_drop: "tight f \<Longrightarrow> tight (fold (\<lambda>t f. drop_member t x f) ts f)"
  by (induction ts arbitrary: f) (auto intro: tight_drop)

lemma Subscribe_maps [simp]:
  "subscribers (Subscribe p t m) = (subscribers m)(t \<mapsto> insert p (members (subscribers m) t))"
  "perPlayer (Subscribe p t m) = (perPlayer m)(p \<mapsto> insert t (members (perPlayer m) p))"
  by (simp_all add: Subscribe_def members_def Let_def)

lemma Unsubscribe_maps [simp]:
  "subscribers (Unsubscribe p t m) = drop_member t p (subscribers m)"
  "perPlayer (Unsubscribe p t m) = drop_member p t (perPlayer m)"
  by (simp_all add: Unsubscribe_def)

lemma UnsubscribeAll_members:
  assumes "lists_sets rng" "manager_inv m"
  shows "members (subscribers (UnsubscribeAll rng p m)) t = members (subscribers m) t - {p}"
    and "members (perPlayer (UnsubscribeAll rng p m)) q =
      (if q = p then {} else members (perPlayer m) q)"
proof -
  have conv: "p \<in> members (subscribers m) t \<longleftrightarrow> t \<in> members (perPlayer m) p"
    using assms(2) by (simp add: manager_inv_def)
  have "set (rng (members (perPlayer m) p)) = members (perPlayer m) p"
    using assms tight_finite [of "perPlayer m" p] by (simp add: lists_sets_def manager_inv_def)
  with conv show "members (subscribers (UnsubscribeAll rng p m)) t = members (subscribers m) t - {p}"
    by (cases "perPlayer m p") (auto simp: UnsubscribeAll_def members_fold_drop Let_def,
        auto simp: members_def)
  show "members (perPlayer (UnsubscribeAll rng p m)) q =
      (if q = p then {} else members (perPlayer m) q)"
    by (cases "perPlayer m p") (simp_all add: UnsubscribeAll_def Let_def, simp add: members_def)
qed

section \<open>The contract\<close>

text \<open>
  What a user of the manager relies on: the three operations act on a relation between
  players and topics, and nothing is left behind when the relation is empty.
\<close>

datatype sub_op = OpSubscribe pid Topic | OpUnsubscribe pid Topic | OpUnsubscribeAll pid

fun sub_spec :: "sub_op \<Rightarrow> (pid \<times> Topic) set \<Rightarrow> (pid \<times> Topic) set" where
  "sub_spec (OpSubscribe p t) R = insert (p, t) R"
| "sub_spec (OpUnsubscribe p t) R = R - {(p, t)}"
| "sub_spec (OpUnsubscribeAll p) R = {(q, t) \<in> R. q \<noteq> p}"

locale subscription_store =
  fixes run_op :: "sub_op \<Rightarrow> 's \<Rightarrow> 's"
    and rel :: "'s \<Rightarrow> (pid \<times> Topic) set"
    and good :: "'s \<Rightarrow> bool"
    and fresh :: 's
  assumes fresh_rel: "rel fresh = {}"
    and op_good: "good s \<Longrightarrow> good (run_op x s)"
    and op_rel: "good s \<Longrightarrow> rel (run_op x s) = sub_spec x (rel s)"
    and no_leak: "good s \<Longrightarrow> rel s = {} \<Longrightarrow> s = fresh"
begin

lemma history: "good s \<Longrightarrow> good (fold run_op xs s) \<and> rel (fold run_op xs s) = fold sub_spec xs (rel s)"
  by (induction xs arbitrary: s) (simp_all add: op_good op_rel)

lemma history_fresh: "good fresh \<Longrightarrow> rel (fold run_op xs fresh) = fold sub_spec xs {}"
  using history by (simp add: fresh_rel)

text \<open>Once every player has left, the store is as it was made.\<close>

lemma all_left:
  assumes "good s" "\<And>p t. (p, t) \<in> rel s \<Longrightarrow> p \<in> set ps"
  shows "fold run_op (map OpUnsubscribeAll ps) s = fresh"
proof -
  have "fold sub_spec (map OpUnsubscribeAll ps) R = {(q, t) \<in> R. q \<notin> set ps}" for R
    by (induction ps arbitrary: R) auto
  then have "rel (fold run_op (map OpUnsubscribeAll ps) s) = {}"
    using history [OF assms(1)] assms(2) by auto
  then show ?thesis using history [OF assms(1)] no_leak by blast
qed

end

fun run_sub_op :: "(Topic set \<Rightarrow> Topic list) \<Rightarrow> sub_op \<Rightarrow> Manager \<Rightarrow> Manager" where
  "run_sub_op rng (OpSubscribe p t) m = Subscribe p t m"
| "run_sub_op rng (OpUnsubscribe p t) m = Unsubscribe p t m"
| "run_sub_op rng (OpUnsubscribeAll p) m = UnsubscribeAll rng p m"

lemma manager_inv_UnsubscribeAll:
  assumes "lists_sets rng" "manager_inv m"
  shows "manager_inv (UnsubscribeAll rng p m)"
proof -
  have "tight (subscribers (UnsubscribeAll rng p m))" "tight (perPlayer (UnsubscribeAll rng p m))"
    using assms(2)
    by (auto simp: UnsubscribeAll_def manager_inv_def tight_fold_drop tight_remove Let_def
        split: option.split)
  with assms show ?thesis
    unfolding manager_inv_def UnsubscribeAll_members [OF assms]
    by (auto simp: manager_inv_def)
qed

lemma manager_inv_op: "lists_sets rng \<Longrightarrow> manager_inv m \<Longrightarrow> manager_inv (run_sub_op rng x m)"
  by (cases x) (auto simp: manager_inv_UnsubscribeAll,
      auto simp: manager_inv_def tight_insert tight_drop)

lemma subscriptions_op:
  "lists_sets rng \<Longrightarrow> manager_inv m \<Longrightarrow>
   subscriptions (run_sub_op rng x m) = sub_spec x (subscriptions m)"
  by (cases x) (auto simp: subscriptions_def UnsubscribeAll_members split: if_splits)

lemma manager_empty: "manager_inv m \<Longrightarrow> subscriptions m = {} \<Longrightarrow> m = New"
  by (rule Manager.equality)
    (auto simp: New_def manager_inv_def subscriptions_def intro!: tight_empty)

interpretation sub: subscription_store
  "run_sub_op rng" subscriptions "\<lambda>m. lists_sets rng \<and> manager_inv m" New for rng
  by unfold_locales
    (simp_all add: manager_inv_op subscriptions_op manager_empty,
      simp add: New_def subscriptions_def)

lemma manager_inv_New [simp]: "manager_inv New"
  by (simp add: New_def manager_inv_def tight_def)

section \<open>Publishing\<close>

lemma PublishOver_loops:
  fixes topic :: Topic and E :: "('m, 'g) env"
  assumes "manager_inv m" "lists_sets rng"
  defines "ps \<equiv> Subscribers rng m topic"
  shows "PublishOver E rng m topic msg TransportUDP s = fold (\<lambda>p. SendUDP E p msg) ps s"
    and "PublishOver E rng m topic msg TransportTCP s = fold (\<lambda>p. SendTCP E p msg) ps s"
    and "distinct ps" "set ps = members (subscribers m) topic"
  using assms
  by (auto simp: PublishOver_def Subscribers_def manager_inv_def tight_def lists_sets_def
      members_def split: option.split)

lemma SendTCP_push:
  "marshalGameServerFrame E msg = Inr data \<Longrightarrow> SendTCP E p msg s = pushTCP (sessions s p) data s"
  by (simp add: SendTCP_def split: option.split)

section \<open>Properties\<close>

text \<open>
  C25 Subscriptions: after any history of subscribing, unsubscribing and leaving, a player is
  listed as a subscriber of a topic, and the topic among the player's topics, exactly when the
  history read as updates of a set of (player, topic) pairs has the pair; and nobody is listed
  twice.
\<close>

theorem subscriptions_refine_relation:
  assumes "lists_sets rng" "lists_sets rngT"
  shows "let m = fold (run_sub_op rngT) ops New in
    distinct (Subscribers rng m t) \<and> distinct (Topics rngT m p) \<and>
    (p \<in> set (Subscribers rng m t) \<longleftrightarrow> (p, t) \<in> fold sub_spec ops {}) \<and>
    (t \<in> set (Topics rngT m p) \<longleftrightarrow> (p, t) \<in> fold sub_spec ops {})"
proof -
  define m where "m = fold (run_sub_op rngT) ops New"
  have inv: "manager_inv m" and rel: "subscriptions m = fold sub_spec ops {}"
    using sub.history [of rngT New ops] sub.history_fresh [of rngT ops] assms(2) by (auto simp: m_def)
  have fin: "finite (members (subscribers m) t)" "finite (members (perPlayer m) p)"
    using inv by (simp_all add: manager_inv_def tight_finite)
  have lists: "distinct (Subscribers rng m t)" "set (Subscribers rng m t) = members (subscribers m) t"
    "distinct (Topics rngT m p)" "set (Topics rngT m p) = members (perPlayer m) p"
    using assms(1,2) fin
    by (cases "subscribers m t"; cases "perPlayer m p";
        simp add: lists_sets_def Subscribers_def Topics_def members_def)+
  moreover have "p \<in> members (subscribers m) t \<longleftrightarrow> (p, t) \<in> fold sub_spec ops {}"
    by (simp add: rel [symmetric] subscriptions_def)
  moreover have "t \<in> members (perPlayer m) p \<longleftrightarrow> p \<in> members (subscribers m) t"
    using inv by (simp add: manager_inv_def)
  ultimately show ?thesis unfolding m_def [symmetric] Let_def by simp
qed

lemma lists_sets_exists: "lists_sets (\<lambda>S. SOME xs. distinct xs \<and> set xs = S)"
  unfolding lists_sets_def by (metis (mono_tags, lifting) finite_distinct_list someI_ex)

lemma subscriptions_refine_relation_witness:
  "\<exists>rng rngT. (7 :: pid) \<in> set (Subscribers rng
     (fold (run_sub_op rngT) [OpSubscribe 7 ''news'', OpSubscribe 8 ''news'', OpUnsubscribeAll 8] New) ''news'')"
proof -
  let ?ops = "[OpSubscribe 7 ''news'', OpSubscribe 8 ''news'', OpUnsubscribeAll 8]"
  have "(7, ''news'') \<in> fold sub_spec ?ops {}" by simp
  then show ?thesis
    using subscriptions_refine_relation [OF lists_sets_exists lists_sets_exists, of ?ops "''news''" 7]
    unfolding Let_def by blast
qed

text \<open>
  No leak: when \<open>UnsubscribeAll\<close> has been called for every player that has a
  subscription, as \<open>OnDisconnect\<close> is meant to do, the manager is the empty manager again.
\<close>

lemma manager_empties:
  assumes "lists_sets rng" "lists_sets rngT"
    and "\<And>p. p \<in> (\<Union>t. set (Subscribers rng (fold (run_sub_op rngT) ops New) t)) \<Longrightarrow> p \<in> set ps"
  shows "fold (run_sub_op rngT) (map OpUnsubscribeAll ps) (fold (run_sub_op rngT) ops New) = New"
proof (rule sub.all_left)
  let ?m = "fold (run_sub_op rngT) ops New"
  have inv: "manager_inv ?m" using sub.history [of rngT New ops] assms(2) by auto
  with assms(2) show "lists_sets rngT \<and> manager_inv ?m" by simp
  fix p t
  assume "(p, t) \<in> subscriptions ?m"
  then have "p \<in> set (Subscribers rng ?m t)"
    using PublishOver_loops(4) [OF inv assms(1), of t] by (simp add: subscriptions_def)
  then show "p \<in> set ps" using assms(3) by blast
qed

text \<open>
  C26 Publishing over UDP sends the event to every subscriber of the topic that is paired,
  exactly once and at its address, and to nobody else; a subscriber without a paired session
  is passed over. (The event marshals and fits, and the UDP socket is open.)
\<close>

theorem Publish_each_subscriber_once:
  assumes "manager_inv m" "lists_sets rng" "marshalGameServerFrame E msg = Inr data"
    and "sendable E data s"
  shows "\<exists>ps. distinct ps \<and>
    set ps = {p. p \<in> members (subscribers m) topic \<and> paired s p \<noteq> None} \<and>
    udp_sent (Publish E rng m topic msg s) = udp_sent s @ map (\<lambda>p. (the (paired s p), data)) ps"
proof -
  note loop = PublishOver_loops(1) [OF assms(1,2)]
  note list = PublishOver_loops(3,4) [OF assms(1,2), where topic = topic]
  let ?ps = "filter (\<lambda>p. paired s p \<noteq> None) (Subscribers rng m topic)"
  have "fold (\<lambda>p. SendUDP E p msg) (Subscribers rng m topic) s =
      s\<lparr>udp_sent := udp_sent s @ datagrams s data (Subscribers rng m topic)\<rparr>"
    by (rule datagram_loop [of E data]) (use assms(3,4) SendUDP_datagram in auto)
  then have "udp_sent (Publish E rng m topic msg s) = udp_sent s @ map (\<lambda>p. (the (paired s p), data)) ?ps"
    by (simp add: Publish_def loop datagrams_def)
  moreover have "distinct ?ps" "set ?ps = {p. p \<in> members (subscribers m) topic \<and> paired s p \<noteq> None}"
    using list by auto
  ultimately show ?thesis by blast
qed

lemma Publish_each_subscriber_once_witness:
  "\<exists>rng. udp_sent (Publish demo rng (Subscribe 5 ''news'' New) ''news'' (Num 8)
     (demo_state sessionReady 5 (Some ''a''))) = [(''a'', [4, 8])]"
proof -
  let ?s = "demo_state sessionReady 5 (Some ''a'')" and ?m = "Subscribe 5 ''news'' New"
  let ?r = "\<lambda>S :: pid set. SOME xs. distinct xs \<and> set xs = S"
  have m: "marshalGameServerFrame demo (Num 8) = Inr [4, 8]" by (simp add: marshalGameServerFrame_def)
  have inv: "manager_inv ?m" using manager_inv_op [OF lists_sets_exists, of New "OpSubscribe 5 ''news''"]
    by simp
  have set: "{p. p \<in> members (subscribers ?m) ''news'' \<and> paired ?s p \<noteq> None} = {5}"
    by (auto simp: New_def paired_def)
  have "sendable demo [4, 8] ?s" by (simp add: sendable_def)
  from Publish_each_subscriber_once [OF inv lists_sets_exists m this, of "''news''"]
  obtain ps where "distinct ps" "set ps = {5}"
    "udp_sent (Publish demo ?r ?m ''news'' (Num 8) ?s) = map (\<lambda>p. (the (paired ?s p), [4, 8])) ps"
    unfolding set by auto
  moreover from this have "ps = [5]"
    by (cases ps) (auto simp: subset_singleton_iff dest!: subset_singletonD)
  ultimately show ?thesis by (auto simp: paired_def)
qed

end

