(* ===== verification/Rpc.thy ===== *)
theory Rpc
  imports Dispatch
begin

text \<open>
  \<open>rpc/rpc.go\<close>: typed RPC handlers on top of the untyped registry. A concrete message
  type \<open>'req\<close> is known through its type assertion \<open>msg.(Req)\<close>, a response type
  \<open>'resp\<close> through its conversion to \<open>proto.Message\<close>.
\<close>

text \<open>A typed handler: the game's next state, the commands issued, and response and error.\<close>

type_synonym ('m, 'g, 'req, 'resp) Handler =
  "tickctx \<Rightarrow> sref \<Rightarrow> 'req \<Rightarrow> 'g server \<Rightarrow> 'g \<times> 'm command list \<times> ('resp \<times> goerr option) outcome"

text \<open>The closure that \<open>Register\<close> installs; \<open>%T\<close> of a message is a parameter.\<close>

definition typed_wrapper ::
  "('m \<Rightarrow> 'req option) \<Rightarrow> ('resp \<Rightarrow> 'm) \<Rightarrow> ('m \<Rightarrow> string) \<Rightarrow>
   ('m, 'g, 'req, 'resp) Handler \<Rightarrow> ('m, 'g) RPCHandler" where
  "typed_wrapper as_req of_resp type_text h tc r msg s =
     (case as_req msg of
        None \<Rightarrow>
          (game s, [], Returned (None,
             Some (ErrText (''rpc: handler type mismatch: got '' @ type_text msg))))
      | Some req \<Rightarrow>
          (case h tc r req s of
             (g, cs, Panicked v) \<Rightarrow> (g, cs, Panicked v)
           | (g, cs, Returned (resp, Some err)) \<Rightarrow> (g, cs, Returned (None, Some err))
           | (g, cs, Returned (resp, None)) \<Rightarrow> (g, cs, Returned (Some (of_resp resp), None))))"


section \<open>Lemmas\<close>

lemma HandleRPC_static [simp]:
  "cfg (HandleRPC p h E) = cfg E" "pb (HandleRPC p h E) = pb E"
  "decode_into (HandleRPC p h E) = decode_into E"
  by (simp_all add: HandleRPC_def decode_into_def fun_eq_iff)


lemma typed_wrapper_mismatch:
  "as_req msg = None \<Longrightarrow> typed_wrapper as_req of_resp type_text h tc r msg s =
    (game s, [], Returned (None, Some (ErrText (''rpc: handler type mismatch: got '' @ type_text msg))))"
  by (simp add: typed_wrapper_def)

lemma typed_wrapper_ok:
  "as_req msg = Some req \<Longrightarrow> h tc r req s = (g, cs, Returned (resp, None)) \<Longrightarrow>
   typed_wrapper as_req of_resp type_text h tc r msg s = (g, cs, Returned (Some (of_resp resp), None))"
  by (simp add: typed_wrapper_def)

section \<open>Properties\<close>



end

