(* ===== verification/Transport.thy ===== *)
theory Transport
  imports Session
begin

text \<open>
  \<open>internal/transport\<close>: the in-memory listener, whose \<open>select\<close> statements may take any
  ready case, and the two listen helpers. A pipe made by \<open>net.Pipe\<close> is a number.
\<close>

section \<open>Listen helpers\<close>

text \<open>
  \<open>net.Listen\<close>, \<open>tls.NewListener\<close> and \<open>net.ListenPacket\<close> are parameters.
\<close>

definition ListenTCP ::
  "(string \<Rightarrow> string \<Rightarrow> goerr + 'l) \<Rightarrow> ('l \<Rightarrow> 'tls \<Rightarrow> 'l) \<Rightarrow> string \<Rightarrow> 'tls option \<Rightarrow> goerr + 'l" where
  "ListenTCP net_Listen tls_NewListener ad tlsCfg =
     (case net_Listen ''tcp'' ad of
        Inl err \<Rightarrow> Inl err
      | Inr l \<Rightarrow> (case tlsCfg of Some c \<Rightarrow> Inr (tls_NewListener l c) | None \<Rightarrow> Inr l))"

definition ListenUDP :: "(string \<Rightarrow> string \<Rightarrow> goerr + 'c) \<Rightarrow> string \<Rightarrow> goerr + 'c" where
  "ListenUDP net_ListenPacket ad = net_ListenPacket ''udp'' ad"

section \<open>The in-memory listener\<close>

record MemoryListener =
  ml_addr :: string
  incoming :: "nat list"
  ml_closed :: bool
  ml_once :: atomicOnce




definition Close :: "MemoryListener \<Rightarrow> MemoryListener" where
  "Close l =
     (let (w, runs) = once_Do (ml_once l); l1 = l\<lparr>ml_once := w\<rparr>
      in if runs then l1\<lparr>ml_closed := True\<rparr> else l1)"



section \<open>Runs\<close>







lemma Close_simps [simp]:
  "incoming (Close l) = incoming l"
  "ml_closed (Close l) \<longleftrightarrow> ml_closed l \<or> \<not> fired (ml_once l)"
  "fired (ml_once (Close l))"
  by (auto simp: Close_def once_Do_def Let_def)







section \<open>Properties\<close>



end

