(* ===== verification/RunLife.thy ===== *)
theory RunLife
  imports System Transport Scenario
begin

text \<open>
  \<open>Run\<close> (\<open>server.go\<close>): the guard against a second run, the two listeners, the join of
  the goroutines and the error that is returned; and the accept and receive loops as functions
  of what the sockets deliver.
\<close>

section \<open>The error of a run\<close>

text \<open>The first error kept, and whether the shared context was cancelled.\<close>

definition recordErr :: "goerr option \<Rightarrow> goerr option \<times> bool \<Rightarrow> goerr option \<times> bool" where
  "recordErr err st =
     (case err of
        None \<Rightarrow> st
      | Some e \<Rightarrow>
          if errors_is e ContextCanceled \<or> errors_is e ContextDeadlineExceeded then st
          else (case fst st of None \<Rightarrow> Some e | Some f \<Rightarrow> Some f, True))"

section \<open>Start and end of a run\<close>

text \<open>
  What \<open>Run\<close> does before its goroutines start. \<open>listen_tcp\<close> and \<open>listen_udp\<close> are the
  results of the listen calls; the sockets that are open afterwards are returned.
\<close>

record sockets =
  tcp_open :: bool
  udp_open :: bool

text \<open>\<open>%q\<close> of \<open>fmt\<close> is a parameter.\<close>

definition listen_error :: "(string \<Rightarrow> string) \<Rightarrow> string \<Rightarrow> string \<Rightarrow> goerr \<Rightarrow> goerr" where
  "listen_error quoted proto ad err =
     errorf_prefix (''godotnet: '' @ proto @ '' listen '' @ quoted ad @ '': '') err"

definition Run_start ::
  "('m, 'g) env \<Rightarrow> (string \<Rightarrow> string) \<Rightarrow> (string \<Rightarrow> goerr + unit) \<Rightarrow> (string \<Rightarrow> goerr + unit) \<Rightarrow>
   'g server \<Rightarrow> (goerr + sockets) \<times> 'g server" where
  "Run_start E quoted listen_tcp listen_udp s =
     (if running s then (Inl (Sentinel ErrServerAlreadyRunning), s)
      else
        (let s1 = s\<lparr>running := True, tickCount := 0\<rparr>;
             stopped = s1\<lparr>running := False\<rparr>;
             tcp_wanted = (TCPAddr (cfg E) \<noteq> '''');
             udp_wanted = (UDPAddr (cfg E) \<noteq> '''') in
         case (if tcp_wanted then listen_tcp (TCPAddr (cfg E)) else Inr ()) of
           Inl err \<Rightarrow> (Inl (listen_error quoted ''tcp'' (TCPAddr (cfg E)) err), stopped)
         | Inr _ \<Rightarrow>
             (case (if udp_wanted then listen_udp (UDPAddr (cfg E)) else Inr ()) of
                Inl err \<Rightarrow> (Inl (listen_error quoted ''udp'' (UDPAddr (cfg E)) err), stopped)
              | Inr _ \<Rightarrow>
                  (Inr \<lparr>tcp_open = tcp_wanted, udp_open = udp_wanted\<rparr>,
                   if udp_wanted then s1\<lparr>udpConn := True\<rparr> else s1))))"

text \<open>
  After \<open>wg.Wait\<close>: \<open>results\<close> are the errors of the goroutines in the order in which they
  returned, \<open>ctx_err\<close> is \<open>ctx.Err()\<close> of the caller's context.
\<close>

definition Run_finish :: "goerr option list \<Rightarrow> goerr option \<Rightarrow> 'g server \<Rightarrow> goerr option \<times> 'g server" where
  "Run_finish results ctx_err s =
     (let firstErr = fst (fold recordErr results (None, False))
      in (case firstErr of None \<Rightarrow> ctx_err | Some e \<Rightarrow> Some e,
          s\<lparr>udpConn := False, running := False\<rparr>))"

text \<open>
  The goroutines that \<open>Run\<close> starts, and \<open>Run\<close> as a whole. \<open>during\<close> is what these goroutines
  do until all of them have returned: their errors in the order in which they return, and the
  server's state then (the steps of \<open>sys_step\<close>).
\<close>

datatype goroutine = GoAccept | GoUDPReader | GoTickLoop

definition Run_spawns :: "sockets \<Rightarrow> 'g server \<Rightarrow> goroutine list" where
  "Run_spawns socks s =
     (if tcp_open socks then [GoAccept] else []) @ (if udpConn s then [GoUDPReader] else []) @ [GoTickLoop]"

definition Run ::
  "('m, 'g) env \<Rightarrow> (string \<Rightarrow> string) \<Rightarrow> (string \<Rightarrow> goerr + unit) \<Rightarrow> (string \<Rightarrow> goerr + unit) \<Rightarrow>
   (goroutine list \<Rightarrow> 'g server \<Rightarrow> goerr option list \<times> 'g server) \<Rightarrow> goerr option \<Rightarrow>
   'g server \<Rightarrow> goerr option \<times> 'g server" where
  "Run E quoted listen_tcp listen_udp during ctx_err s =
     (case Run_start E quoted listen_tcp listen_udp s of
        (Inl err, s1) \<Rightarrow> (Some err, s1)
      | (Inr socks, s1) \<Rightarrow>
          (case during (Run_spawns socks s1) s1 of
             (results, s2) \<Rightarrow> Run_finish results ctx_err s2))"

section \<open>The loops that read from sockets\<close>

datatype accept_result = AcceptConn addr int | AcceptErr goerr

text \<open>
  \<open>runTCPAccept\<close> on the results of \<open>Accept\<close>, each with the time at which the
  connection is served: the sessions started, and whether the loop has ended.
\<close>

fun runTCPAccept :: "('m, 'g) env \<Rightarrow> accept_result list \<Rightarrow> 'g server \<Rightarrow> bool \<times> sref list \<times> 'g server" where
  "runTCPAccept E [] s = (False, [], s)"
| "runTCPAccept E (AcceptErr err # rs) s =
     (if errors_is err NetErrClosed then (True, [], s) else runTCPAccept E rs s)"
| "runTCPAccept E (AcceptConn remote t # rs) s =
     (let (r, s1) = serveTCPConn_start E remote t s;
          (ended, refs, s2) = runTCPAccept E rs s1
      in (ended, r # refs, s2))"

datatype udp_result = Datagram addr bytes | UDPReadErr goerr

text \<open>
  \<open>runUDPReader\<close> on the results of \<open>ReadFrom\<close>: the error that it returns, if it has
  ended.
\<close>

fun runUDPReader ::
  "('m, 'g) env \<Rightarrow> goerr option \<Rightarrow> udp_result list \<Rightarrow> 'g server \<Rightarrow> goerr option option \<times> 'g server" where
  "runUDPReader E ctx_err [] s = (None, s)"
| "runUDPReader E ctx_err (UDPReadErr err # rs) s =
     (if isCleanCloseErr err \<or> errors_is err NetErrClosed then (Some ctx_err, s)
      else (Some (Some (errorf_prefix ''godotnet: udp read: '' err)), s))"
| "runUDPReader E ctx_err (Datagram a d # rs) s = runUDPReader E ctx_err rs (udp_iter E a d s)"

section \<open>Lemmas\<close>

lemma recordErr_fold:
  "fst (fold recordErr results (f, c)) =
    (case f of Some e \<Rightarrow> Some e
     | None \<Rightarrow> find (\<lambda>e. \<not> errors_is e ContextCanceled \<and> \<not> errors_is e ContextDeadlineExceeded)
         (List.map_filter id results))"
proof (induction results arbitrary: f c)
  case Nil
  then show ?case by (simp add: map_filter_def split: option.split)
next
  case (Cons x xs)
  then show ?case
    by (cases x; cases f) (auto simp: recordErr_def map_filter_def)
qed

text \<open>Sessions started by the accept loop are fresh and distinct.\<close>

lemma runTCPAccept_refs:
  "runTCPAccept E rs s = (ended, refs, s') \<Longrightarrow>
   refs = [next_ref s..<next_ref s'] \<and> next_ref s \<le> next_ref s'"
proof (induction E rs s arbitrary: ended refs s' rule: runTCPAccept.induct)
  case (3 E remote t rs s)
  obtain r s1 where a: "serveTCPConn_start E remote t s = (r, s1)" by fastforce
  obtain e2 refs2 s2 where b: "runTCPAccept E rs s1 = (e2, refs2, s2)" by (metis prod_cases3)
  have "r = next_ref s" "next_ref s1 = Suc r"
    using a by (auto simp: serveTCPConn_start_def Let_def)
  moreover have "refs2 = [next_ref s1..<next_ref s2] \<and> next_ref s1 \<le> next_ref s2"
    using "3.IH" [of "(r, s1)" r s1] a b by simp
  ultimately show ?case
    using "3.prems" a b by (auto simp: upt_conv_Cons)
qed (auto split: if_splits)

lemma udp_iter_eq:
  assumes "0 \<le> MaxUDPPayload (cfg E)"
  shows "udp_iter E a d s =
    (if int (length d) \<le> MaxUDPPayload (cfg E)
     then s\<lparr>events := fst (push (udp_message d a) (events s))\<rparr> else s)"
  using assms by (auto simp: udp_iter_def Let_def)

lemma runUDPReader_datagrams:
  assumes "0 \<le> MaxUDPPayload (cfg E)"
  shows "runUDPReader E ctx_err (map (\<lambda>(a, d). Datagram a d) ds) s = (None, s\<lparr>events :=
    push_all (map (\<lambda>(a, d). udp_message d a)
      (filter (\<lambda>(a, d). int (length d) \<le> MaxUDPPayload (cfg E)) ds)) (events s)\<rparr>)"
  by (induction ds arbitrary: s) (auto simp: udp_iter_eq [OF assms] push_all_def)

definition is_conn :: "accept_result \<Rightarrow> bool" where
  "is_conn a = (case a of AcceptConn _ _ \<Rightarrow> True | AcceptErr _ \<Rightarrow> False)"

definition closes :: "accept_result \<Rightarrow> bool" where
  "closes a = (case a of AcceptConn _ _ \<Rightarrow> False | AcceptErr err \<Rightarrow> errors_is err NetErrClosed)"

lemma accept_result_simps [simp]:
  "is_conn (AcceptConn a t)" "\<not> is_conn (AcceptErr err)"
  "\<not> closes (AcceptConn a t)" "closes (AcceptErr err) = errors_is err NetErrClosed"
  by (simp_all add: is_conn_def closes_def)

definition fresh_session :: "'g server \<Rightarrow> sref \<Rightarrow> bool" where
  "fresh_session s r \<longleftrightarrow> authState (heap s r) = sessionPreLogin \<and> ID (heap s r) = 0 \<and>
     tcp (heap s r) = Some r \<and> sendTCP (heap s r) = Some r \<and>
     \<not> fired (disconnectOnce (heap s r)) \<and> buf (chans s r) = [] \<and> \<not> is_closed (chans s r)"

lemma serveTCPConn_start_fresh:
  assumes "serveTCPConn_start E remote t s = (r, s1)"
  shows "fresh_session s1 r" "q \<noteq> r \<Longrightarrow> fresh_session s q \<Longrightarrow> fresh_session s1 q"
  using serveTCPConn_startD [OF assms]
  by (auto simp: fresh_session_def session_zero_def chan_zero_def)

lemma runTCPAccept_keeps:
  "runTCPAccept E rs s = (ended, refs, s') \<Longrightarrow> fresh_session s q \<Longrightarrow> q < next_ref s \<Longrightarrow>
   fresh_session s' q"
proof (induction E rs s arbitrary: ended refs s' rule: runTCPAccept.induct)
  case (3 E remote t rs s)
  obtain r s1 where a: "serveTCPConn_start E remote t s = (r, s1)" by fastforce
  obtain e2 refs2 s2 where b: "runTCPAccept E rs s1 = (e2, refs2, s2)" by (metis prod_cases3)
  have "fresh_session s1 q" "q < next_ref s1"
    using serveTCPConn_start_fresh(2) [OF a] serveTCPConn_startD [OF a] "3.prems" by auto
  with "3.IH" [of "(r, s1)" r s1 e2 refs2 s2] "3.prems"(1) a b show ?case by simp
qed (auto split: if_splits)

lemma runTCPAccept_result:
  "runTCPAccept E rs s = (ended, refs, s') \<Longrightarrow>
   (ended \<longleftrightarrow> (\<exists>a \<in> set rs. closes a)) \<and>
   length refs = length (filter is_conn (takeWhile (\<lambda>a. \<not> closes a) rs)) \<and>
   (\<forall>r \<in> set refs. fresh_session s' r)"
proof (induction E rs s arbitrary: ended refs s' rule: runTCPAccept.induct)
  case (3 E remote t rs s)
  obtain r s1 where a: "serveTCPConn_start E remote t s = (r, s1)" by fastforce
  obtain e2 refs2 s2 where b: "runTCPAccept E rs s1 = (e2, refs2, s2)" by (metis prod_cases3)
  have "fresh_session s2 r"
    using runTCPAccept_keeps [OF b] serveTCPConn_start_fresh(1) [OF a] serveTCPConn_startD [OF a] by simp
  moreover from "3.IH" [of "(r, s1)" r s1 e2 refs2 s2] a b
  have "(e2 \<longleftrightarrow> (\<exists>a \<in> set rs. closes a)) \<and>
     length refs2 = length (filter is_conn (takeWhile (\<lambda>a. \<not> closes a) rs)) \<and>
     (\<forall>r \<in> set refs2. fresh_session s2 r)" by simp
  ultimately show ?case
    using "3.prems" a b by auto
qed (auto split: if_splits)

section \<open>Properties\<close>

text \<open>
  C36 The accept loop: it ends exactly when \<open>Accept\<close> reports a closed listener, skips every
  other error, and starts one session for each connection accepted until then: sessions at
  distinct unused addresses, before login, each with an open empty outbound queue and its
  disconnect signal unused.
\<close>

theorem accept_loop_serves_each:
  assumes "runTCPAccept E rs s = (ended, refs, s')"
  shows "(ended \<longleftrightarrow> (\<exists>a \<in> set rs. closes a)) \<and>
    length refs = length (filter is_conn (takeWhile (\<lambda>a. \<not> closes a) rs)) \<and>
    refs = [next_ref s..<next_ref s'] \<and> (\<forall>r \<in> set refs. fresh_session s' r)"
  using runTCPAccept_result [OF assms] runTCPAccept_refs [OF assms] by blast

lemma accept_loop_serves_each_witness:
  "\<exists>s'. runTCPAccept demo [AcceptConn ''a'' 1, AcceptErr (ErrText ''EMFILE''), AcceptConn ''b'' 2,
      AcceptErr (Sentinel NetErrClosed), AcceptConn ''c'' 3] (new_state demo_cfg 0) =
      (True, [0, 1], s') \<and> fresh_session s' 0 \<and> fresh_session s' 1"
proof -
  have "\<exists>s'. runTCPAccept demo [AcceptConn ''a'' 1, AcceptErr (ErrText ''EMFILE''), AcceptConn ''b'' 2,
      AcceptErr (Sentinel NetErrClosed), AcceptConn ''c'' 3] (new_state demo_cfg 0) = (True, [0, 1], s')"
    by (simp add: serveTCPConn_start_def new_state_def Let_def)
  then obtain s' where run: "runTCPAccept demo [AcceptConn ''a'' 1, AcceptErr (ErrText ''EMFILE''),
      AcceptConn ''b'' 2, AcceptErr (Sentinel NetErrClosed), AcceptConn ''c'' 3]
      (new_state demo_cfg 0) = (True, [0, 1], s')" by blast
  from accept_loop_serves_each [OF run] run show ?thesis by simp
qed

text \<open>
  C37 Datagrams: from a burst of datagrams the UDP reader queues, in order and with their
  sender's address, those within the datagram cap, as far as the event queue has room; longer
  ones are dropped whole, never cut.
\<close>

theorem datagrams_queued_whole:
  assumes "0 \<le> MaxUDPPayload (cfg E)" "length (ch (events s)) \<le> depth (events s)"
  shows "\<exists>s'. runUDPReader E ctx_err (map (\<lambda>(a, d). Datagram a d) ds) s = (None, s') \<and>
    ch (events s') = ch (events s) @ take (depth (events s) - length (ch (events s)))
      (map (\<lambda>(a, d). udp_message d a)
        (filter (\<lambda>(a, d). int (length d) \<le> MaxUDPPayload (cfg E)) ds)) \<and>
    heap s' = heap s \<and> sessions s' = sessions s"
  using runUDPReader_datagrams [OF assms(1)] ch_push_all [OF assms(2)] by simp

lemma datagrams_queued_whole_witness:
  "\<exists>s'. runUDPReader demo None (map (\<lambda>(a, d). Datagram a d)
      [(''p'', [3]), (''q'', replicate 1201 0), (''r'', [])]) (new_state demo_cfg 0) = (None, s') \<and>
    ch (events s') = [udp_message [3] ''p'', udp_message [] ''r'']"
  using datagrams_queued_whole [of demo "new_state demo_cfg 0" None
      "[(''p'', [3]), (''q'', replicate 1201 0), (''r'', [])]"]
  by (auto simp: new_state_def newQueue_depth)

text \<open>
  C38 The result of \<open>Run\<close>: when a listener cannot be opened, \<open>Run\<close> returns the error, wrapped,
  and starts no goroutine. Otherwise it starts the tick loop and one reader per configured
  socket, and returns the first error, in the order in which they return, that is not a
  cancellation, or else the context's own. In every case the socket is given up and the server
  is stopped, so that it can be run again; while it is running a second \<open>Run\<close> is refused and
  changes nothing.
\<close>

theorem run_result_and_rerun:
  assumes "Run E quoted listen_tcp listen_udp during ctx_err s = (res, s')" "\<not> running s" "\<not> udpConn s"
    and "s1 = s\<lparr>running := True, tickCount := 0, udpConn := (UDPAddr (cfg E) \<noteq> '''')\<rparr>"
    and "during ((if TCPAddr (cfg E) \<noteq> '''' then [GoAccept] else []) @
      (if UDPAddr (cfg E) \<noteq> '''' then [GoUDPReader] else []) @ [GoTickLoop]) s1 = (results, s2)"
  shows "\<not> running s' \<and> \<not> udpConn s' \<and>
    Run E quoted listen_tcp listen_udp during ctx_err s1 = (Some (Sentinel ErrServerAlreadyRunning), s1) \<and>
    (case (if TCPAddr (cfg E) = '''' then Inr () else listen_tcp (TCPAddr (cfg E)),
           if UDPAddr (cfg E) = '''' then Inr () else listen_udp (UDPAddr (cfg E))) of
       (Inl err, _) \<Rightarrow>
         res = Some (listen_error quoted ''tcp'' (TCPAddr (cfg E)) err) \<and> s' = s\<lparr>tickCount := 0\<rparr>
     | (_, Inl err) \<Rightarrow>
         res = Some (listen_error quoted ''udp'' (UDPAddr (cfg E)) err) \<and> s' = s\<lparr>tickCount := 0\<rparr>
     | _ \<Rightarrow>
         res = (case find (\<lambda>e. \<not> errors_is e ContextCanceled \<and> \<not> errors_is e ContextDeadlineExceeded)
           (List.map_filter id results) of None \<Rightarrow> ctx_err | Some e \<Rightarrow> Some e) \<and>
         s' = s2\<lparr>udpConn := False, running := False\<rparr>)"
proof -
  have refused: "Run E quoted listen_tcp listen_udp during ctx_err s1 =
      (Some (Sentinel ErrServerAlreadyRunning), s1)"
    by (simp add: Run_def Run_start_def assms(4))
  have finish: "Run_finish results ctx_err s2 =
      (case find (\<lambda>e. \<not> errors_is e ContextCanceled \<and> \<not> errors_is e ContextDeadlineExceeded)
         (List.map_filter id results) of None \<Rightarrow> ctx_err | Some e \<Rightarrow> Some e,
       s2\<lparr>udpConn := False, running := False\<rparr>)"
    by (simp add: Run_finish_def Let_def recordErr_fold)
  have spawns: "Run_spawns \<lparr>tcp_open = (TCPAddr (cfg E) \<noteq> ''''), udp_open = (UDPAddr (cfg E) \<noteq> '''')\<rparr> s1 =
      (if TCPAddr (cfg E) \<noteq> '''' then [GoAccept] else []) @
      (if UDPAddr (cfg E) \<noteq> '''' then [GoUDPReader] else []) @ [GoTickLoop]"
    by (simp add: Run_spawns_def assms(4))
  define a where "a = (if TCPAddr (cfg E) = '''' then Inr () else listen_tcp (TCPAddr (cfg E)))"
  define b where "b = (if UDPAddr (cfg E) = '''' then Inr () else listen_udp (UDPAddr (cfg E)))"
  have started: "Run_start E quoted listen_tcp listen_udp s =
    (case (a, b) of
       (Inl err, _) \<Rightarrow> (Inl (listen_error quoted ''tcp'' (TCPAddr (cfg E)) err), s\<lparr>tickCount := 0\<rparr>)
     | (_, Inl err) \<Rightarrow> (Inl (listen_error quoted ''udp'' (UDPAddr (cfg E)) err), s\<lparr>tickCount := 0\<rparr>)
     | _ \<Rightarrow> (Inr \<lparr>tcp_open = (TCPAddr (cfg E) \<noteq> ''''), udp_open = (UDPAddr (cfg E) \<noteq> '''')\<rparr>, s1))"
    using assms(2,3) by (cases "UDPAddr (cfg E) = ''''")
      (auto simp: Run_start_def Let_def assms(4) a_def b_def intro!: server.equality split: sum.split)
  have result: "Run E quoted listen_tcp listen_udp during ctx_err s = (case (a, b) of
       (Inl err, _) \<Rightarrow> (Some (listen_error quoted ''tcp'' (TCPAddr (cfg E)) err), s\<lparr>tickCount := 0\<rparr>)
     | (_, Inl err) \<Rightarrow> (Some (listen_error quoted ''udp'' (UDPAddr (cfg E)) err), s\<lparr>tickCount := 0\<rparr>)
     | _ \<Rightarrow> Run_finish results ctx_err s2)"
    unfolding Run_def started by (cases a; cases b) (simp_all add: spawns assms(5))
  show ?thesis
    unfolding a_def [symmetric] b_def [symmetric] refused
    using assms(1-3) unfolding result finish by (cases a; cases b) auto
qed

lemma run_result_and_rerun_witness:
  "fst (Run demo (\<lambda>a. a) (\<lambda>_. Inr ()) (\<lambda>_. Inr ())
      (\<lambda>gs s. ([Some (Sentinel ContextCanceled), Some (ErrText ''udp''), None], s)) None
      (new_state demo_cfg 0)) = Some (ErrText ''udp'')"
proof -
  let ?during = "\<lambda>(gs :: goroutine list) s. ([Some (Sentinel ContextCanceled), Some (ErrText ''udp''), None], s)"
  obtain res s' where r: "Run demo (\<lambda>a. a) (\<lambda>_. Inr ()) (\<lambda>_. Inr ()) ?during None (new_state demo_cfg 0) = (res, s')"
    by fastforce
  have "\<not> running (new_state demo_cfg 0)" "\<not> udpConn (new_state demo_cfg 0)"
    by (simp_all add: new_state_def)
  from run_result_and_rerun [OF r this refl refl] r show ?thesis
    by (simp add: map_filter_def)
qed

end
