(* ===== verification/Log.thy ===== *)
theory Log
  imports Prelude
begin

text \<open>
  \<open>log.go\<close>: the logger interface, its two implementations, and the choice made for a
  server that is configured without one. Where log records end up is a state of its own type
  that nothing else of the server reads.
\<close>

datatype log_level = LevelDebug | LevelInfo | LevelWarn | LevelError

text \<open>The levels of \<open>log/slog\<close>.\<close>

fun slog_level :: "log_level \<Rightarrow> int" where
  "slog_level LevelDebug = -4"
| "slog_level LevelInfo = 0"
| "slog_level LevelWarn = 4"
| "slog_level LevelError = 8"

text \<open>
  \<open>slog.Handler\<close>: which levels it wants, and what it does with a record. A logger is one of
  the two of the library or an implementation of the interface by the application.
\<close>

record ('v, 'w) slog_handler =
  handler_Enabled :: "log_level \<Rightarrow> bool"
  handler_Handle :: "log_level \<Rightarrow> string \<Rightarrow> 'v list \<Rightarrow> 'w \<Rightarrow> 'w"

datatype ('v, 'w) Logger =
    slogLogger "('v, 'w) slog_handler"
  | nopLogger
  | userLogger "log_level \<Rightarrow> string \<Rightarrow> 'v list \<Rightarrow> 'w \<Rightarrow> 'w"

text \<open>
  \<open>slog.NewJSONHandler\<close> with \<open>HandlerOptions{Level: slog.LevelInfo}\<close>; \<open>json\<close> stands for the
  JSON encoding of a record onto standard error.
\<close>

definition NewJSONHandler ::
  "(log_level \<Rightarrow> string \<Rightarrow> 'v list \<Rightarrow> 'w \<Rightarrow> 'w) \<Rightarrow> ('v, 'w) slog_handler" where
  "NewJSONHandler json =
     \<lparr>handler_Enabled = (\<lambda>l. slog_level LevelInfo \<le> slog_level l), handler_Handle = json\<rparr>"

definition NewDefaultLogger ::
  "(log_level \<Rightarrow> string \<Rightarrow> 'v list \<Rightarrow> 'w \<Rightarrow> 'w) \<Rightarrow> ('v, 'w) slog_handler option \<Rightarrow> ('v, 'w) Logger" where
  "NewDefaultLogger json h =
     slogLogger (case h of None \<Rightarrow> NewJSONHandler json | Some h' \<Rightarrow> h')"

text \<open>The methods \<open>Debug\<close>, \<open>Info\<close>, \<open>Warn\<close> and \<open>Error\<close>, by level.\<close>

fun log_record :: "('v, 'w) Logger \<Rightarrow> log_level \<Rightarrow> string \<Rightarrow> 'v list \<Rightarrow> 'w \<Rightarrow> 'w" where
  "log_record (slogLogger h) l msg kv w =
     (if handler_Enabled h l then handler_Handle h l msg kv w else w)"
| "log_record nopLogger l msg kv w = w"
| "log_record (userLogger f) l msg kv w = f l msg kv w"

definition loggerOrNop :: "('v, 'w) Logger option \<Rightarrow> ('v, 'w) Logger" where
  "loggerOrNop logger = (case logger of None \<Rightarrow> nopLogger | Some l \<Rightarrow> l)"

text \<open>
  A server without a logger writes nothing; the default logger writes every record once but
  those of level Debug.
\<close>

lemma log_configured:
  "fold (\<lambda>(l, msg, kv). log_record (loggerOrNop None) l msg kv) rs w = w"
  "fold (\<lambda>(l, msg, kv). log_record (NewDefaultLogger json None) l msg kv) rs w =
    fold (\<lambda>(l, msg, kv). json l msg kv) (filter (\<lambda>(l, _). l \<noteq> LevelDebug) rs) w"
proof -
  show "fold (\<lambda>(l, msg, kv). log_record (loggerOrNop None) l msg kv) rs w = w"
    by (induction rs) (auto simp: loggerOrNop_def)
  show "fold (\<lambda>(l, msg, kv). log_record (NewDefaultLogger json None) l msg kv) rs w =
    fold (\<lambda>(l, msg, kv). json l msg kv) (filter (\<lambda>(l, _). l \<noteq> LevelDebug) rs) w"
  proof (induction rs arbitrary: w)
    case (Cons x rs)
    obtain l msg kv where "x = (l, msg, kv)" by (metis prod_cases3)
    with Cons show ?case
      by (cases l) (simp_all add: NewDefaultLogger_def NewJSONHandler_def)
  qed simp
qed

end
