(* ===== verification/Spec2Isabelle.thy ===== *)
theory Spec2Isabelle
  imports Departed Shutdown Preempt Join Sub Rpc RunLife Log
begin

text \<open>
  A verification development for godotnet, a Go library for multiplayer game servers. The
  library accepts TCP connections and datagrams, authenticates players, pairs each player's TCP
  connection with a UDP address, and runs the game's handlers and its tick callback on one
  goroutine. The theories model the Go packages under \<open>src/\<close> (the root package,
  \<open>sub\<close>, \<open>rpc\<close>, \<open>internal/transport\<close>, and the message types of \<open>controlpb\<close>) and prove
  what each part promises.

  The parts and how they meet. One goroutine per connection reads frames and pushes message
  events into the bounded event queue; the UDP reader pushes datagrams; once per tick the tick
  goroutine drains the queue and handles each event: messages are decoded and routed by the
  session's state to login, pairing, pong, game or RPC handling; disconnect events clean the
  session up. Replies go into the session's outbound channel, which a writer goroutine per
  connection drains, or out of the UDP socket. A session leaves through one disconnect event,
  which its one-shot flag \<open>disconnectOnce\<close> admits once.

  Theories, with the code they model:
  \<^item> Prelude: machine types, errors (\<open>errors.go\<close>; sentinels and \<open>%w\<close> wrapping), time
    arithmetic, iteration orders of maps, the locale \<open>preserved\<close> for predicates kept along runs.
  \<^item> Frame: \<open>frame.go\<close>; the contract of \<open>io.Writer\<close> is the locale \<open>byte_sink\<close>.
  \<^item> Events: \<open>events.go\<close>; the queue's contract is the locale \<open>bounded_fifo\<close>, interpreted
    by \<open>push\<close> and \<open>drain\<close>.
  \<^item> Session: \<open>session.go\<close>. Controlpb: the messages and getters of \<open>controlpb\<close>.
  \<^item> Registry: the handler registries and \<open>extractOneofBody\<close> of \<open>dispatch.go\<close>; the
    registries' contract is a locale, interpreted by both.
  \<^item> Server: \<open>server.go\<close> but \<open>Run\<close>: configuration, state, \<open>pushTCP\<close>,
    \<open>scheduleDisconnect\<close>, \<open>cleanupSession\<close>, the callbacks of \<open>tick.go\<close> and
    \<open>udpSendRaw\<close>. It defines \<open>sends\<close>, the relation that bounds what handlers, replies
    and broadcasts may do; every later theory shows its operations to be in it.
  \<^item> TickCtx: \<open>tickctx.go\<close>. Ping: \<open>ping.go\<close>. Handshake: \<open>handshake.go\<close>. Dispatch: the
    rest of \<open>dispatch.go\<close>. Tick: \<open>tick.go\<close>. Rpc: \<open>rpc/rpc.go\<close>. Sub: \<open>sub/sub.go\<close>.
  \<^item> Lifecycle: how one event may change the sessions. Invariant: the invariants of channels,
    tables and callbacks, kept by every operation. Delivery: who a broadcast reaches.
  \<^item> Tcp: \<open>tcp.go\<close> and the reader of \<open>udp.go\<close>, one loop iteration at a time. Wire: these
    loops as a channel of payloads. RunLife: \<open>Run\<close> and the loops over socket results.
    Transport: \<open>internal/transport\<close>. Log: \<open>log.go\<close>.
  \<^item> System: the running server as a step relation \<open>sys_step\<close> over all goroutines, its
    reachable states and their invariant. Moves: the same as an executable machine, driven by
    a list of choices. Executions, Lockout, Teardown, Departed, Shutdown: what holds along executions,
    the executions on which sessions are never released, and how the goroutines of the
    connections end after cancellation. Streams: a connection from end to end, what the
    network delivers against what is handled and what is queued against what the peer gets.
    Preempt: the same inside an event. Answer: a request and its answer, from the bytes that
    arrive to the bytes that leave. Progress: the event queue against what is handled. Join: the
    way of a client from its login frame to the paired session.
  \<^item> Scenario: a concrete message type, configuration and environment, on which the properties
    with hypotheses are exercised.

  State. Go pointers are addresses: a session, its outbound channel and its connection live in
  the maps \<open>heap\<close>, \<open>chans\<close> and \<open>conns\<close> of the record \<open>server\<close>, all three at the address
  at which \<open>serveTCPConn\<close> allocates the session. The tables \<open>sessions\<close> and
  \<open>udpSessions\<close> are those of the struct \<open>Server\<close>; \<open>events\<close> is its queue. Beside the code's
  fields the record keeps what the environment observes: the datagrams sent, the callbacks
  made (\<open>calls\<close>), the game's own state, a counter of draws from the clock and the random
  source, and \<open>panicked\<close>, set by a run-time panic that nothing recovers (send on or close of a
  closed channel, a nil interface). What \<open>Run\<close> leaves constant (configuration, registries,
  callbacks) and the parameters are in the record \<open>env\<close>.

  Parameters and what is assumed of them (\<open>env_ok\<close>): the protobuf runtime (clone, reset,
  marshal, unmarshal, full names and oneofs; nothing is assumed), the clock, the random source
  (delivers the length asked for, or fails), the order in which Go ranges over a map (each key
  once; it may differ at every loop). Game code is arbitrary: a handler is a function of the
  context, the session, the message and the server state to a new game state, the context
  operations it calls, in order, and its result or panic. Log output has no state.

  Concurrency. A step of \<open>sys_step\<close> is one iteration of a reader or of the UDP reader, one
  receive and write or one evaluation of the channel by a writer, one event, the start or the
  end of a tick, an action of the network, an accept, or the shutdown. Steps of all goroutines
  interleave freely, also between the events of one tick; handling one event is atomic. The
  other goroutines meet the tick goroutine only in the event queue, the outbound channels, the
  connections and the atomic one-shot flags. The writer's unsynchronised read of
  \<open>sess.sendTCP\<close> is a step of its own (see Teardown). What the atomic event leaves out: a
  writer that receives between two payloads which the same event queues for one session (the
  room it makes lets the second go through where the model may find the channel full), and
  messages that get into the event queue between two disconnects which one event schedules.
  Preempt cuts a handler's commands into single sends, lets the other goroutines move between
  them, and shows that the invariants hold there too.
  \<open>Events\<close> treats pushes in the middle of a drain.

  Bounds and termination. Loops over what arrived are structural recursions or have a measure
  (\<open>read_frames\<close>); loops that run for the life of the server are steps or recursions over the
  list of what the environment delivers, so no fuel is needed; \<open>reader_loop\<close> and
  \<open>writer_loop\<close> count iterations, and the theorems give the number. Lengths are 32-bit words,
  \<open>PlayerID\<close> is a 32-bit word, the tick counter and nonces 64-bit words; times are
  integers with the 64-bit wrap of \<open>UnixNano\<close> and the saturation of \<open>Sub\<close> written out.

  Groups of lemmas: round trip, soundness and failures of framing (Frame, Wire); FIFO and
  bounds (Events, Transport, RunLife); login, pairing and tokens (Handshake); the gates of
  every callback (Tick) and the only ways to change a session's state (Lifecycle); replies and
  panics (Dispatch, Rpc); liveness and keepalive (Ping); delivery (Delivery, Sub);
  subscriptions as a relation (Sub); and below, for every reachable state and every execution
  of the whole server: no panic, consistent tables, callbacks at most once, sessions that only
  move forward. Streams shows that what a client sends is handled once and in order and that what
  is sent to it arrives so; Answer that a request on the wire is answered on the wire. Progress shows that every event is
  handled by the end of the next tick, Join that a client whose login is accepted gets in. Teardown shows that a queued disconnect is carried out by the next tick,
  Departed that a player who is silent or hangs up is removed by it, and Shutdown that after cancellation every
  reader and writer returns; Teardown, Departed and Lockout also prove behaviour that a maintainer would want changed: a login handled after its
  connection's cleanup, a disconnect lost to a full queue, the player id 0, an address that is
  used again, a writer that waits for the shutdown.

  Not modelled: log output (the log calls of all components; \<open>log.go\<close> itself is in Log); the protobuf wire format and the generated reflection code; TLS; the kernel's
  sockets (a failed \<open>WriteTo\<close> is only logged; accept and listen results are parameters); the
  registration locks, since registration happens before \<open>Run\<close>; the watcher goroutine of a
  connection ends with it and is the step \<open>watcher_close\<close>; \<open>Session.Username\<close> and
  \<open>UserData\<close>, which the library never touches; the placeholder packages \<open>chat\<close>,
  \<open>interest\<close> and \<open>snapshot\<close>, which hold no code.
\<close>

section \<open>Properties of the whole server\<close>

text \<open>
  C1 The server never crashes: whatever clients, network, handlers and callbacks do, and in
  whatever order the goroutines move, no goroutine sends on or closes a closed channel and
  none dereferences a nil address or connection; and the event queue never exceeds its depth.
\<close>

theorem server_never_panics:
  assumes "env_ok E" "sys_reach E z"
  shows "\<not> panicked (srv z) \<and> length (ch (events (srv z))) \<le> depth (events (srv z))"
  using sys_invD(1) [OF sys_inv_reach [OF assms]] chan_inv_running chan_inv_bounded
  by (auto simp: srv_inv_def queue_bounded_def)

lemma server_never_panics_witness:
  "\<exists>z. sys_reach demo z \<and> batch z = [tcp_message 0 [1, 7]] \<and> \<not> panicked (srv z)"
proof -
  obtain z where z: "sys_reach demo z" "batch z = [tcp_message 0 [1, 7]]" by (rule ghost_state)
  with server_never_panics [OF demo_ok z(1)] show ?thesis by blast
qed

text \<open>
  C11 The session tables stay consistent: in every reachable state an entry of the session table
  is an authenticated session with that player id and a token; an entry of the address table is
  a ready session with that address that is in the session table; a session is ready exactly
  when it has an address; and every logged-in session that still has its outbound channel is in
  the session table under its id, so that no two of them share an id.
\<close>

theorem tables_stay_consistent:
  assumes "env_ok E" "sys_reach E z"
  shows "finite (dom (sessions (srv z))) \<and>
    (case sessions (srv z) p of None \<Rightarrow> True | Some r \<Rightarrow> ID (heap (srv z) r) = p \<and>
       authState (heap (srv z) r) \<noteq> sessionPreLogin \<and> sessionToken (heap (srv z) r) \<noteq> '''') \<and>
    (case udpSessions (srv z) a of None \<Rightarrow> True | Some r \<Rightarrow> session_udpAddr (heap (srv z) r) = Some a \<and>
       authState (heap (srv z) r) = sessionReady \<and>
       sessions (srv z) (ID (heap (srv z) r)) = Some r) \<and>
    (authState (heap (srv z) q) = sessionReady \<longleftrightarrow> session_udpAddr (heap (srv z) q) \<noteq> None) \<and>
    (sendTCP (heap (srv z) q) \<noteq> None \<and> authState (heap (srv z) q) \<noteq> sessionPreLogin \<longrightarrow>
       sessions (srv z) (ID (heap (srv z) q)) = Some q)"
proof -
  have t: "table_inv (srv z)"
    using sys_invD(1) [OF sys_inv_reach [OF assms]] by (simp add: srv_inv_def)
  from table_invD [OF t] show ?thesis by (simp split: option.split)
qed

lemma tables_stay_consistent_witness:
  "\<exists>z. sys_reach demo z \<and> sessions (srv z) 7 = Some 0 \<and> ID (heap (srv z) 0) = 7 \<and>
     udpSessions (srv z) ''here'' = Some 0 \<and> authState (heap (srv z) 0) = sessionReady"
proof -
  obtain z where z: "sys_reach demo z" "sessions (srv z) 7 = Some 0" "udpSessions (srv z) ''here'' = Some 0"
    by (rule paired_state)
  from tables_stay_consistent [OF demo_ok z(1), of 7 "''here''" 0] z show ?thesis by auto
qed

text \<open>
  C2 Lifecycle callbacks are made at most once: in every reachable state \<open>OnConnect\<close> and
  \<open>OnDisconnect\<close> have each been called at most once per session, the one only for a session
  that is ready, the other only for a session that has lost its channel; and at most one
  disconnect event per session is on its way, for a session whose signal is spent.
\<close>

theorem lifecycle_callbacks_once:
  assumes "env_ok E" "sys_reach E z"
  shows "connects r (calls (srv z)) \<le> (if authState (heap (srv z) r) = sessionReady then 1 else 0) \<and>
    disconnects r (calls (srv z)) \<le> (if sendTCP (heap (srv z) r) = None then 1 else 0) \<and>
    pending r (batch z @ ch (events (srv z))) \<le>
      (if fired (disconnectOnce (heap (srv z) r)) \<and> sendTCP (heap (srv z) r) \<noteq> None then 1 else 0)"
proof -
  have c: "chan_inv (batch z) (srv z)" and l: "call_inv (srv z)"
    using sys_invD(1) [OF sys_inv_reach [OF assms]] by (simp_all add: srv_inv_def)
  have "connects r (calls (srv z)) \<le> (if authState (heap (srv z) r) = sessionReady then 1 else 0)"
    using call_inv_conn_le [OF l, of r] call_inv_conn [OF l, of r] by (simp, force)
  moreover have "disconnects r (calls (srv z)) \<le> (if sendTCP (heap (srv z) r) = None then 1 else 0)"
    using call_inv_disc_le [OF l, of r] call_inv_disc [OF l, of r] by (simp, force)
  moreover have "pending r (batch z @ ch (events (srv z))) \<le>
      (if fired (disconnectOnce (heap (srv z) r)) \<and> sendTCP (heap (srv z) r) \<noteq> None then 1 else 0)"
    using chan_inv_le [OF c, of r] chan_inv_pos [OF c, of r]
    by (cases "0 < pending r (batch z @ ch (events (srv z)))") simp_all
  ultimately show ?thesis by blast
qed

lemma lifecycle_callbacks_once_witness:
  "\<exists>z. sys_reach demo z \<and> connects 0 (calls (srv z)) = 1 \<and> disconnects 0 (calls (srv z)) = 0"
proof -
  obtain z where z: "sys_reach demo z" "calls (srv z) = [CallOnConnect 0]" by (rule paired_state)
  from lifecycle_callbacks_once [OF demo_ok z(1), of 0] z(2) show ?thesis
    using z(1) by (intro exI [of _ z]) (simp add: connects_def disconnects_def)
qed

text \<open>
  C13 Sessions only move forward: along every execution a session's authentication state never
  goes back, its player id and token stay once it is logged in and its address once it is
  ready; a channel that was given up does not come back, a spent disconnect signal stays spent;
  and the record of callbacks only grows.
\<close>

theorem sessions_move_forward:
  assumes "env_ok E" "sys_reach E z" "rtranclp (sys_step E) z z'" "r < next_ref (srv z)"
    and "x = heap (srv z) r" "y = heap (srv z') r"
  shows "authState x \<le> authState y \<and>
    (authState x \<noteq> sessionPreLogin \<longrightarrow> ID y = ID x \<and> sessionToken y = sessionToken x) \<and>
    (authState x = sessionReady \<longrightarrow> session_udpAddr y = session_udpAddr x) \<and>
    (sendTCP x = None \<longrightarrow> sendTCP y = None) \<and>
    (fired (disconnectOnce x) \<longrightarrow> fired (disconnectOnce y)) \<and>
    (\<exists>cs. calls (srv z') = calls (srv z) @ cs)"
  using sys_run_later [OF assms(1) sys_inv_reach [OF assms(1,2)] assms(3)] assms(4)
  by (auto simp: sys_later_def sess_advances_def assms(5,6))

lemma sessions_move_forward_witness:
  "\<exists>z. sys_reach demo z \<and>
     (\<forall>z'. rtranclp (sys_step demo) z z' \<longrightarrow> ID (heap (srv z') 0) = 7 \<and>
       session_udpAddr (heap (srv z') 0) = Some ''here'')"
proof -
  obtain z where z: "sys_reach demo z" "next_ref (srv z) = 1" "authState (heap (srv z) 0) = sessionReady"
    "ID (heap (srv z) 0) = 7" "session_udpAddr (heap (srv z) 0) = Some ''here''"
    by (rule paired_state)
  have "ID (heap (srv z') 0) = 7 \<and> session_udpAddr (heap (srv z') 0) = Some ''here''"
    if "rtranclp (sys_step demo) z z'" for z'
    using sessions_move_forward [OF demo_ok z(1) that _ refl refl, of 0] z(2-5) by simp
  with z(1) show ?thesis by blast
qed

end

